theory Spec2Isabelle
  imports Complex_Main
begin

section \<open>Python values\<close>

text \<open>
  The collector of \<^verbatim>\<open>src/metrics_collector.py\<close> stores whatever its callers pass.
  A float is either a finite number, read as the real number it denotes, or one of the three
  special values. Arithmetic on finite floats is taken exact: rounding, overflow to infinity
  and the sign of zero are not part of this development.
\<close>

datatype pyfloat = Fin real | PosInf | NegInf | NaN

text \<open>The scalar values a JSON document can put into a dictionary.\<close>

datatype pyval = PyNone | PyBool bool | PyInt int | PyFloat pyfloat | PyStr string

datatype pyerror =
  TypeError | ValueError | OverflowError | NameError | IndexError | KeyError | ClientError string

text \<open>
  A \<^verbatim>\<open>dict\<close> keeps its keys in insertion order, and the code iterates over it, so a
  dictionary is an association list whose keys are distinct.
\<close>

type_synonym ('k, 'v) pydict = "('k \<times> 'v) list"

definition dict_get :: "('k, 'v) pydict \<Rightarrow> 'k \<Rightarrow> 'v \<Rightarrow> 'v" where
  "dict_get d k dflt = (case map_of d k of None \<Rightarrow> dflt | Some v \<Rightarrow> v)"

text \<open>
  \<^verbatim>\<open>d[k].append(v)\<close> on a \<^verbatim>\<open>defaultdict(list)\<close>: an absent key is first inserted
  at the end with an empty list.
\<close>

fun dict_append :: "('k, 'v list) pydict \<Rightarrow> 'k \<Rightarrow> 'v \<Rightarrow> ('k, 'v list) pydict" where
  "dict_append [] k v = [(k, [v])]"
| "dict_append ((k', vs) # d) k v =
     (if k' = k then (k', vs @ [v]) # d else (k', vs) # dict_append d k v)"

section \<open>Strings\<close>

definition startswith :: "string \<Rightarrow> string \<Rightarrow> bool" where
  "startswith s p = (take (length p) s = p)"

text \<open>\<^verbatim>\<open>p in s\<close> for strings: \<open>p\<close> occurs in \<open>s\<close> at some position.\<close>

fun str_in :: "string \<Rightarrow> string \<Rightarrow> bool" where
  "str_in p [] = (p = [])"
| "str_in p (c # cs) = (startswith (c # cs) p \<or> str_in p cs)"

section \<open>The built-in \<^verbatim>\<open>float\<close>\<close>

text \<open>
  \<^verbatim>\<open>float(v)\<close> raises \<^verbatim>\<open>TypeError\<close> on \<^verbatim>\<open>None\<close>, \<^verbatim>\<open>OverflowError\<close> on an integer
  that rounds beyond the largest double, and \<^verbatim>\<open>ValueError\<close> on a string that is not a
  float literal. Strings are ASCII here. A literal may carry surrounding white space, a
  sign, underscores between digits, a fraction and an exponent, or spell
  \<^verbatim>\<open>inf\<close>, \<^verbatim>\<open>infinity\<close> or \<^verbatim>\<open>nan\<close> in any case.
\<close>

definition is_digit :: "char \<Rightarrow> bool" where
  "is_digit c = (c \<in> set ''0123456789'')"

definition digit_val :: "char \<Rightarrow> nat" where
  "digit_val c = length (takeWhile (\<lambda>d. d \<noteq> c) ''0123456789'')"

definition digits_val :: "string \<Rightarrow> nat" where
  "digits_val ds = foldl (\<lambda>acc c. 10 * acc + digit_val c) 0 ds"

definition is_space :: "char \<Rightarrow> bool" where
  "is_space c = (c \<in> {CHR '' '', CHR 0x09, CHR 0x0A, CHR 0x0B, CHR 0x0C, CHR 0x0D})"

definition lower :: "char \<Rightarrow> char" where
  "lower c = (case map_of (zip ''ABCDEFGHIJKLMNOPQRSTUVWXYZ'' ''abcdefghijklmnopqrstuvwxyz'') c of
                None \<Rightarrow> c | Some l \<Rightarrow> l)"

text \<open>An underscore must stand between two digits; \<open>prev\<close> is the character before.\<close>

fun drop_underscores :: "char \<Rightarrow> string \<Rightarrow> string option" where
  "drop_underscores prev [] = (if prev = CHR ''_'' then None else Some [])"
| "drop_underscores prev (c # cs) =
     (if c = CHR ''_'' then (if is_digit prev then drop_underscores c cs else None)
      else if prev = CHR ''_'' \<and> \<not> is_digit c then None
      else map_option ((#) c) (drop_underscores c cs))"

definition strip :: "string \<Rightarrow> string" where
  "strip s = rev (dropWhile is_space (rev (dropWhile is_space s)))"

definition split_sign :: "string \<Rightarrow> bool \<times> string" where
  "split_sign s =
     (case s of
        [] \<Rightarrow> (False, [])
      | c # cs \<Rightarrow> if c = CHR ''-'' then (True, cs) else if c = CHR ''+'' then (False, cs)
                 else (False, s))"

definition scale10 :: "nat \<Rightarrow> int \<Rightarrow> real" where
  "scale10 m k = (if 0 \<le> k then real m * 10 ^ nat k else real m / 10 ^ nat (- k))"

text \<open>
  The exponent part: nothing, or \<^verbatim>\<open>e\<close> with an optional sign and at least one digit up
  to the end of the string.
\<close>

definition parse_exponent :: "string \<Rightarrow> int option" where
  "parse_exponent s =
     (case s of
        [] \<Rightarrow> Some 0
      | c # cs \<Rightarrow>
          if lower c = CHR ''e'' then
            (let (neg, ds) = split_sign cs in
             if ds \<noteq> [] \<and> list_all is_digit ds
             then Some (if neg then - int (digits_val ds) else int (digits_val ds))
             else None)
          else None)"

definition parse_decimal :: "string \<Rightarrow> real option" where
  "parse_decimal s =
     (let ip = takeWhile is_digit s; r1 = dropWhile is_digit s;
          fp = (case r1 of [] \<Rightarrow> [] | c # cs \<Rightarrow> if c = CHR ''.'' then takeWhile is_digit cs else []);
          r2 = (case r1 of [] \<Rightarrow> [] | c # cs \<Rightarrow> if c = CHR ''.'' then dropWhile is_digit cs else r1)
      in if ip = [] \<and> fp = [] then None
         else (case parse_exponent r2 of
                 None \<Rightarrow> None
               | Some e \<Rightarrow> Some (scale10 (digits_val (ip @ fp)) (e - int (length fp)))))"

definition float_of_string :: "string \<Rightarrow> pyerror + pyfloat" where
  "float_of_string s =
     (case drop_underscores (CHR 0x00) s of
        None \<Rightarrow> Inl ValueError
      | Some t \<Rightarrow>
          (let (neg, body) = split_sign (strip t); word = map lower body in
           if word = ''inf'' \<or> word = ''infinity'' then Inr (if neg then NegInf else PosInf)
           else if word = ''nan'' then Inr NaN
           else (case parse_decimal body of
                   None \<Rightarrow> Inl ValueError
                 | Some x \<Rightarrow> Inr (Fin (if neg then - x else x)))))"

definition py_float :: "pyval \<Rightarrow> pyerror + pyfloat" where
  "py_float v =
     (case v of
        PyNone \<Rightarrow> Inl TypeError
      | PyBool b \<Rightarrow> Inr (Fin (if b then 1 else 0))
      | PyInt n \<Rightarrow> if 2 ^ 1024 - 2 ^ 970 \<le> \<bar>n\<bar> then Inl OverflowError else Inr (Fin (real_of_int n))
      | PyFloat x \<Rightarrow> Inr x
      | PyStr s \<Rightarrow> float_of_string s)"

section \<open>The collector\<close>

text \<open>A \<^verbatim>\<open>datetime\<close> is a count of microseconds since 0001-01-01 00:00:00.\<close>

type_synonym datetime = int

text \<open>The dataclass \<^verbatim>\<open>MetricData\<close>, lines 19 to 26.\<close>

record MetricData =
  m_name :: string
  m_value :: pyval
  m_unit :: string
  m_timestamp :: datetime
  m_dimensions :: "(string, pyval) pydict"

text \<open>
  The fields that \<^verbatim>\<open>__init__\<close> sets, lines 32 to 43. The two service handles are not
  state of the collector; the services enter the operations that call them as arguments.
\<close>

record collector =
  region :: string
  metric_buffer :: "(string, MetricData list) pydict"
  business_metrics :: "(string, pyval list) pydict"
  baseline_metrics :: "(string, pyval list) pydict"
  drift_window_size :: nat

definition init_collector :: "string \<Rightarrow> collector" where
  "init_collector r =
     \<lparr>region = r, metric_buffer = [], business_metrics = [], baseline_metrics = [],
      drift_window_size = 100\<rparr>"

text \<open>
  \<^verbatim>\<open>deque.append\<close> on a deque with a \<^verbatim>\<open>maxlen\<close>: the item goes to the right end, and
  when the deque is then longer than \<^verbatim>\<open>maxlen\<close> its left end is dropped.
\<close>

definition deque_append :: "nat \<Rightarrow> 'a list \<Rightarrow> 'a \<Rightarrow> 'a list" where
  "deque_append maxlen q x = (let q' = q @ [x] in if maxlen < length q' then tl q' else q')"

text \<open>
  \<^verbatim>\<open>self.business_metrics[k].append(v)\<close>: the default factory of line 39 makes an absent
  key an empty \<^verbatim>\<open>deque(maxlen=1000)\<close>.
\<close>

fun business_append :: "(string, pyval list) pydict \<Rightarrow> string \<Rightarrow> pyval \<Rightarrow> (string, pyval list) pydict" where
  "business_append [] k v = [(k, deque_append 1000 [] v)]"
| "business_append ((k', q) # d) k v =
     (if k' = k then (k', deque_append 1000 q v) # d else (k', q) # business_append d k v)"

text \<open>\<^verbatim>\<open>_record_metric\<close>, lines 371 to 383.\<close>

definition record_metric ::
  "string \<Rightarrow> pyval \<Rightarrow> string \<Rightarrow> (string, pyval) pydict \<Rightarrow> datetime \<Rightarrow> collector \<Rightarrow> collector" where
  "record_metric name value unit dimensions timestamp s =
     s\<lparr>metric_buffer :=
         dict_append (metric_buffer s) name
           \<lparr>m_name = name, m_value = value, m_unit = unit, m_timestamp = timestamp,
            m_dimensions = dimensions\<rparr>\<rparr>"

text \<open>
  \<^verbatim>\<open>_collect_feature_metrics\<close>, lines 385 to 402. The loop runs over the key features in
  order; the coercion \<^verbatim>\<open>float(claim_data[feature])\<close> is not guarded, so its exception
  ends the loop and leaves the method. The result is the exception raised, if any, and the
  collector as the method left it.
\<close>

definition key_features :: "string list" where
  "key_features =
     [''months_as_customer'', ''age'', ''total_claim_amount'', ''claim_ratio'',
      ''incident_severity'']"

fun collect_features ::
  "string list \<Rightarrow> (string, pyval) pydict \<Rightarrow> datetime \<Rightarrow> collector \<Rightarrow> pyerror option \<times> collector" where
  "collect_features [] claim_data timestamp s = (None, s)"
| "collect_features (feature # rest) claim_data timestamp s =
     (case map_of claim_data feature of
        None \<Rightarrow> collect_features rest claim_data timestamp s
      | Some v \<Rightarrow>
          (case py_float v of
             Inl e \<Rightarrow> (Some e, s)
           | Inr x \<Rightarrow>
               collect_features rest claim_data timestamp
                 (record_metric (''feature_'' @ feature) (PyFloat x) ''None''
                    [(''FeatureType'', PyStr ''input'')] timestamp s)))"

definition collect_feature_metrics ::
  "(string, pyval) pydict \<Rightarrow> datetime \<Rightarrow> collector \<Rightarrow> pyerror option \<times> collector" where
  "collect_feature_metrics claim_data timestamp s =
     collect_features key_features claim_data timestamp s"

text \<open>
  \<^verbatim>\<open>collect_prediction_metrics\<close>, lines 45 to 93; \<open>timestamp\<close> is the reading of
  \<^verbatim>\<open>datetime.now()\<close>. The method has no handler of its own.
\<close>

definition collect_prediction_metrics ::
  "(string, pyval) pydict \<Rightarrow> pyval \<Rightarrow> (string, pyval) pydict \<Rightarrow> datetime \<Rightarrow> collector
   \<Rightarrow> pyerror option \<times> collector" where
  "collect_prediction_metrics prediction_data processing_time claim_data timestamp s =
     (let s1 = record_metric ''prediction_processing_time'' processing_time ''Milliseconds''
                 [(''RiskLevel'', dict_get prediction_data ''risk_level'' (PyStr ''UNKNOWN'')),
                  (''ModelVersion'', dict_get prediction_data ''model_version'' (PyStr ''1.0''))]
                 timestamp s;
          s2 = record_metric ''fraud_probability''
                 (dict_get prediction_data ''fraud_probability'' (PyInt 0)) ''None''
                 [(''RiskLevel'', dict_get prediction_data ''risk_level'' (PyStr ''UNKNOWN''))]
                 timestamp s1;
          s3 = record_metric ''model_confidence''
                 (dict_get prediction_data ''confidence'' (PyInt 0)) ''None''
                 [(''ModelVersion'', dict_get prediction_data ''model_version'' (PyStr ''1.0''))]
                 timestamp s2;
          s4 = s3\<lparr>business_metrics :=
                    business_append (business_metrics s3) ''fraud_probabilities''
                      (dict_get prediction_data ''fraud_probability'' (PyInt 0))\<rparr>;
          s5 = s4\<lparr>business_metrics :=
                    business_append (business_metrics s4) ''confidences''
                      (dict_get prediction_data ''confidence'' (PyInt 0))\<rparr>
      in collect_feature_metrics claim_data timestamp s5)"


section \<open>Float comparison and arithmetic\<close>

text \<open>
  The comparisons and operations of IEEE floats on the four kinds of value: every comparison
  with \<^verbatim>\<open>nan\<close> is false, and numpy's array division returns \<^verbatim>\<open>nan\<close> or an infinity
  where the divisor is zero (it warns and does not raise).
\<close>

fun fle :: "pyfloat \<Rightarrow> pyfloat \<Rightarrow> bool" where
  "fle NaN y = False"
| "fle x NaN = False"
| "fle NegInf y = True"
| "fle x PosInf = True"
| "fle (Fin a) (Fin b) = (a \<le> b)"
| "fle x y = False"

fun flt :: "pyfloat \<Rightarrow> pyfloat \<Rightarrow> bool" where
  "flt NaN y = False"
| "flt x NaN = False"
| "flt (Fin a) (Fin b) = (a < b)"
| "flt NegInf NegInf = False"
| "flt NegInf y = True"
| "flt PosInf y = False"
| "flt (Fin a) PosInf = True"
| "flt (Fin a) NegInf = False"

fun fadd :: "pyfloat \<Rightarrow> pyfloat \<Rightarrow> pyfloat" where
  "fadd NaN y = NaN"
| "fadd x NaN = NaN"
| "fadd (Fin a) (Fin b) = Fin (a + b)"
| "fadd PosInf NegInf = NaN"
| "fadd NegInf PosInf = NaN"
| "fadd PosInf y = PosInf"
| "fadd NegInf y = NegInf"
| "fadd (Fin a) y = y"

definition inf_of_sign :: "bool \<Rightarrow> pyfloat" where
  "inf_of_sign positive = (if positive then PosInf else NegInf)"

fun fmul :: "pyfloat \<Rightarrow> pyfloat \<Rightarrow> pyfloat" where
  "fmul NaN y = NaN"
| "fmul x NaN = NaN"
| "fmul (Fin a) (Fin b) = Fin (a * b)"
| "fmul (Fin a) PosInf = (if a = 0 then NaN else inf_of_sign (0 < a))"
| "fmul (Fin a) NegInf = (if a = 0 then NaN else inf_of_sign (a < 0))"
| "fmul PosInf (Fin b) = (if b = 0 then NaN else inf_of_sign (0 < b))"
| "fmul NegInf (Fin b) = (if b = 0 then NaN else inf_of_sign (b < 0))"
| "fmul PosInf PosInf = PosInf"
| "fmul NegInf NegInf = PosInf"
| "fmul PosInf NegInf = NegInf"
| "fmul NegInf PosInf = NegInf"

fun fdiv :: "pyfloat \<Rightarrow> pyfloat \<Rightarrow> pyfloat" where
  "fdiv NaN y = NaN"
| "fdiv x NaN = NaN"
| "fdiv (Fin a) (Fin b) =
     (if b = 0 then (if a = 0 then NaN else inf_of_sign (0 < a)) else Fin (a / b))"
| "fdiv (Fin a) y = Fin 0"
| "fdiv PosInf (Fin b) = inf_of_sign (0 \<le> b)"
| "fdiv NegInf (Fin b) = inf_of_sign (b < 0)"
| "fdiv x y = NaN"

text \<open>\<^verbatim>\<open>np.log\<close>: minus infinity at zero and \<^verbatim>\<open>nan\<close> below it.\<close>

fun flog :: "pyfloat \<Rightarrow> pyfloat" where
  "flog (Fin a) = (if 0 < a then Fin (ln a) else if a = 0 then NegInf else NaN)"
| "flog PosInf = PosInf"
| "flog x = NaN"

definition fsum :: "pyfloat list \<Rightarrow> pyfloat" where
  "fsum xs = foldr fadd xs (Fin 0)"

section \<open>The anomaly check\<close>

text \<open>
  The thresholds of the check are float literals, and a literal is the double nearest to
  the decimal it spells: \<^verbatim>\<open>0.05\<close> and \<^verbatim>\<open>0.4\<close> lie just above the decimals,
  \<^verbatim>\<open>0.6\<close> just below, and \<^verbatim>\<open>0.25\<close> and \<^verbatim>\<open>1.0\<close> are exact.
\<close>

definition double_0_05 :: real where
  "double_0_05 = 3602879701896397 / 2 ^ 56"

definition double_0_25 :: real where
  "double_0_25 = 1 / 4"

definition double_0_4 :: real where
  "double_0_4 = 3602879701896397 / 2 ^ 53"

definition double_0_6 :: real where
  "double_0_6 = 5404319552844595 / 2 ^ 53"

text \<open>
  \<^verbatim>\<open>_check_business_anomalies\<close>, lines 439 to 473; \<open>timestamp\<close> is its reading of the
  clock. The chained comparison \<^verbatim>\<open>lo <= fraud_rate <= hi\<close> is the conjunction of the two.
\<close>

definition check_business_anomalies ::
  "pyfloat \<Rightarrow> pyfloat \<Rightarrow> pyfloat \<Rightarrow> datetime \<Rightarrow> collector \<Rightarrow> collector" where
  "check_business_anomalies fraud_rate avg_fraud_prob avg_confidence timestamp s =
     (let normal_fraud_rate_range = (Fin double_0_05, Fin double_0_25);
          normal_confidence_range = (Fin double_0_6, Fin 1);
          s1 = (if \<not> (fle (fst normal_fraud_rate_range) fraud_rate
                      \<and> fle fraud_rate (snd normal_fraud_rate_range))
                then record_metric ''business_anomaly_detected'' (PyInt 1) ''Count''
                       [(''AnomalyType'', PyStr ''FraudRate''),
                        (''Severity'',
                         PyStr (if flt (Fin double_0_4) fraud_rate then ''HIGH'' else ''MEDIUM''))]
                       timestamp s
                else s)
      in if flt avg_confidence (fst normal_confidence_range)
         then record_metric ''business_anomaly_detected'' (PyInt 1) ''Count''
                [(''AnomalyType'', PyStr ''LowConfidence''), (''Severity'', PyStr ''MEDIUM'')]
                timestamp s1
         else s1)"

section \<open>The drift computation\<close>

text \<open>
  \<^verbatim>\<open>np.histogram(a, bins=bins, density=True)\<close> with the edges of
  \<^verbatim>\<open>np.linspace(0, 1, 11)\<close>. numpy counts through the cumulative histogram: the number of
  values below each edge but the last, the number of values up to the last edge, and the
  differences of neighbours. The density is \<^verbatim>\<open>n / db / n.sum()\<close>.
\<close>

definition bins :: "real list" where
  "bins = [0, 1 / 10, 2 / 10, 3 / 10, 4 / 10, 5 / 10, 6 / 10, 7 / 10, 8 / 10, 9 / 10, 1]"

definition np_diff :: "'a::minus list \<Rightarrow> 'a list" where
  "np_diff xs = map2 (\<lambda>hi lo. hi - lo) (tl xs) (butlast xs)"

definition cum_counts :: "pyfloat list \<Rightarrow> int list" where
  "cum_counts a =
     map (\<lambda>e. int (length (filter (\<lambda>x. flt x (Fin e)) a))) (butlast bins)
     @ [int (length (filter (\<lambda>x. fle x (Fin (last bins))) a))]"

definition np_histogram_density :: "pyfloat list \<Rightarrow> pyfloat list" where
  "np_histogram_density a =
     (let n = np_diff (cum_counts a); db = np_diff bins; total = sum_list n
      in map2 (\<lambda>ni dbi. fdiv (fdiv (Fin (real_of_int ni)) (Fin dbi)) (Fin (real_of_int total)))
           n db)"

text \<open>
  \<^verbatim>\<open>_calculate_distribution_drift\<close>, lines 411 to 437, on lists of floats as its signature
  says. On such lists no call of the \<^verbatim>\<open>try\<close> block raises, so the body is a function to a
  float and the handler of lines 435 to 437, which would return \<^verbatim>\<open>0.0\<close>, is the
  \<open>Inl\<close> case of \<open>drift_handler\<close>.
\<close>

definition kl_divergence :: "pyfloat list \<Rightarrow> pyfloat list \<Rightarrow> pyfloat" where
  "kl_divergence current_data baseline_data =
     (let epsilon = Fin (1 / 10 ^ 10);
          current_hist = map (\<lambda>h. fadd h epsilon) (np_histogram_density current_data);
          baseline_hist = map (\<lambda>h. fadd h epsilon) (np_histogram_density baseline_data);
          current_hist = map (\<lambda>h. fdiv h (fsum current_hist)) current_hist;
          baseline_hist = map (\<lambda>h. fdiv h (fsum baseline_hist)) baseline_hist
      in fsum (map2 (\<lambda>c b. fmul c (flog (fdiv c b))) current_hist baseline_hist))"

definition drift_handler :: "pyerror + pyfloat \<Rightarrow> pyfloat" where
  "drift_handler r = (case r of Inl e \<Rightarrow> Fin 0 | Inr kl_div \<Rightarrow> kl_div)"

definition calculate_distribution_drift :: "pyfloat list \<Rightarrow> pyfloat list \<Rightarrow> pyfloat" where
  "calculate_distribution_drift current_data baseline_data =
     drift_handler (Inr (kl_divergence current_data baseline_data))"

section \<open>The namespace of a metric\<close>

text \<open>\<^verbatim>\<open>MetricsCollector._get_metric_namespace\<close>, lines 485 to 499.\<close>

definition get_metric_namespace :: "string \<Rightarrow> string" where
  "get_metric_namespace metric_name =
     (if startswith metric_name ''api_'' then ''FraudDetection/API''
      else if startswith metric_name ''prediction_'' \<or> startswith metric_name ''fraud_''
        then ''FraudDetection/ML''
      else if startswith metric_name ''business_'' \<or> startswith metric_name ''claims_''
        then ''FraudDetection/Business''
      else if startswith metric_name ''cost_'' \<or> str_in ''cost'' metric_name
        then ''FraudDetection/Cost''
      else if startswith metric_name ''security_'' then ''FraudDetection/Security''
      else ''FraudDetection/Custom'')"

text \<open>
  The classifier in the words of the specification: an ordered table of rules, each a
  predicate on the name and a namespace, and the first rule whose predicate holds decides.
  A prefix and a substring are stated by decomposition of the name, not by the string
  operations of the code.
\<close>

definition has_prefix :: "string \<Rightarrow> string \<Rightarrow> bool" where
  "has_prefix p s = (\<exists>r. s = p @ r)"

definition has_substring :: "string \<Rightarrow> string \<Rightarrow> bool" where
  "has_substring p s = (\<exists>l r. s = l @ p @ r)"

definition spec_rules :: "((string \<Rightarrow> bool) \<times> string) list" where
  "spec_rules =
     [(has_prefix ''api_'', ''FraudDetection/API''),
      (\<lambda>n. has_prefix ''prediction_'' n \<or> has_prefix ''fraud_'' n, ''FraudDetection/ML''),
      (\<lambda>n. has_prefix ''business_'' n \<or> has_prefix ''claims_'' n, ''FraudDetection/Business''),
      (\<lambda>n. has_prefix ''cost_'' n \<or> has_substring ''cost'' n, ''FraudDetection/Cost''),
      (has_prefix ''security_'', ''FraudDetection/Security'')]"

fun first_match :: "((string \<Rightarrow> bool) \<times> string) list \<Rightarrow> string \<Rightarrow> string" where
  "first_match [] n = ''FraudDetection/Custom''"
| "first_match ((p, ns) # rules) n = (if p n then ns else first_match rules n)"

section \<open>What an operation does to the outside\<close>

text \<open>
  The data of one \<^verbatim>\<open>put_metric_data\<close> entry, lines 339 to 350. The key
  \<^verbatim>\<open>Dimensions\<close> is present only for a metric with dimensions, and each dimension
  \<^verbatim>\<open>{'Name': k, 'Value': v}\<close> is the pair of the two.
\<close>

record metric_datum =
  MetricName :: string
  Value :: pyval
  Unit :: string
  Timestamp :: datetime
  Dimensions :: "(string \<times> pyval) list option"

datatype level = INFO | WARNING | ERROR

text \<open>The log lines of the module, with the values their format strings insert.\<close>

datatype message =
    Flushed nat
  | Failed_to_flush pyerror
  | No_recent_predictions
  | Failed_to_collect_cost pyerror

datatype effect = Log level message | Put string "metric_datum list"

text \<open>
  The result of a public operation: the exception that left it, if any, what it logged and
  sent in order, and the collector afterwards. An exception does not undo what the
  operation had changed before.
\<close>

record outcome =
  raised :: "pyerror option"
  effects :: "effect list"
  state :: collector

definition puts :: "outcome \<Rightarrow> (string \<times> metric_datum list) list" where
  "puts r = concat (map (\<lambda>e. case e of Put ns b \<Rightarrow> [(ns, b)] | Log l m \<Rightarrow> []) (effects r))"

section \<open>Flushing the buffer\<close>

text \<open>
  The sink is the \<^verbatim>\<open>put_metric_data\<close> of the CloudWatch client: given the calls it has
  accepted before in this flush, a namespace and a batch, it accepts the call or raises.
\<close>

type_synonym sink =
  "(string \<times> metric_datum list) list \<Rightarrow> string \<Rightarrow> metric_datum list \<Rightarrow> pyerror option"

definition to_metric_data :: "MetricData \<Rightarrow> metric_datum" where
  "to_metric_data metric =
     \<lparr>MetricName = m_name metric, Value = m_value metric, Unit = m_unit metric,
      Timestamp = m_timestamp metric,
      Dimensions = (if m_dimensions metric \<noteq> [] then Some (m_dimensions metric) else None)\<rparr>"

text \<open>The grouping loops of lines 335 to 352.\<close>

definition group_metrics ::
  "(string, MetricData list) pydict \<Rightarrow> (string, metric_datum list) pydict" where
  "group_metrics buffer =
     foldl (\<lambda>namespaced_metrics metrics_list.
              foldl (\<lambda>namespaced_metrics metric.
                       dict_append namespaced_metrics (get_metric_namespace (m_name metric))
                         (to_metric_data metric))
                namespaced_metrics metrics_list)
       [] (map snd buffer)"

text \<open>
  The inner loop of lines 356 to 362 from index \<open>i\<close> on: \<^verbatim>\<open>metrics[i:i+20]\<close> goes to the
  sink, and an exception of the sink ends the loop. \<open>calls\<close> are the calls made so far.
\<close>

function put_batches ::
  "sink \<Rightarrow> string \<Rightarrow> metric_datum list \<Rightarrow> nat \<Rightarrow> (string \<times> metric_datum list) list
   \<Rightarrow> pyerror option \<times> (string \<times> metric_datum list) list" where
  "put_batches put_metric_data namespace metrics i calls =
     (if i < length metrics then
        (let batch = take 20 (drop i metrics) in
         case put_metric_data calls namespace batch of
           Some e \<Rightarrow> (Some e, calls @ [(namespace, batch)])
         | None \<Rightarrow> put_batches put_metric_data namespace metrics (i + 20)
                     (calls @ [(namespace, batch)]))
      else (None, calls))"
  by pat_completeness auto
termination
  by (relation "measure (\<lambda>(put_metric_data, namespace, metrics, i, calls). length metrics - i)") auto

declare put_batches.simps [simp del]

text \<open>The outer loop of line 355.\<close>

fun send_namespaces ::
  "sink \<Rightarrow> (string, metric_datum list) pydict \<Rightarrow> (string \<times> metric_datum list) list
   \<Rightarrow> pyerror option \<times> (string \<times> metric_datum list) list" where
  "send_namespaces put_metric_data [] calls = (None, calls)"
| "send_namespaces put_metric_data ((namespace, metrics) # rest) calls =
     (case put_batches put_metric_data namespace metrics 0 calls of
        (Some e, calls') \<Rightarrow> (Some e, calls')
      | (None, calls') \<Rightarrow> send_namespaces put_metric_data rest calls')"

text \<open>
  \<^verbatim>\<open>flush_metrics\<close>, lines 325 to 369. The buffer is cleared on line 365, inside the
  \<^verbatim>\<open>try\<close> block and after the loops; the handler of line 368 only logs.
\<close>

definition flush_metrics :: "sink \<Rightarrow> collector \<Rightarrow> outcome" where
  "flush_metrics put_metric_data s =
     (if metric_buffer s = [] then \<lparr>raised = None, effects = [], state = s\<rparr>
      else
        (let namespaced_metrics = group_metrics (metric_buffer s) in
         case send_namespaces put_metric_data namespaced_metrics [] of
           (None, calls) \<Rightarrow>
             \<lparr>raised = None,
              effects = map (\<lambda>(ns, b). Put ns b) calls
                        @ [Log INFO (Flushed (sum_list (map (\<lambda>(ns, m). length m) namespaced_metrics)))],
              state = s\<lparr>metric_buffer := []\<rparr>\<rparr>
         | (Some e, calls) \<Rightarrow>
             \<lparr>raised = None,
              effects = map (\<lambda>(ns, b). Put ns b) calls @ [Log ERROR (Failed_to_flush e)],
              state = s\<rparr>))"

text \<open>
  A sequence of calls in which the sink accepted every one, each after the calls before it.
\<close>

definition accepted :: "sink \<Rightarrow> (string \<times> metric_datum list) list \<Rightarrow> bool" where
  "accepted put_metric_data calls =
     (\<forall>k < length calls.
        put_metric_data (take k calls) (fst (calls ! k)) (snd (calls ! k)) = None)"

text \<open>The observations of the buffer in the order the flush reads them.\<close>

definition buffered_data :: "collector \<Rightarrow> metric_datum list" where
  "buffered_data s = map to_metric_data (concat (map snd (metric_buffer s)))"

definition namespace_of :: "metric_datum \<Rightarrow> string" where
  "namespace_of d = get_metric_namespace (MetricName d)"

section \<open>The business aggregation\<close>

text \<open>
  \<^verbatim>\<open>timedelta(hours=h)\<close> raises \<^verbatim>\<open>OverflowError\<close> when its days exceed 999999999 in
  magnitude, and a \<^verbatim>\<open>datetime\<close> minus a \<^verbatim>\<open>timedelta\<close> raises it when the result is
  outside the years 1 to 9999. Both are counted in microseconds.
\<close>

definition timedelta_hours :: "int \<Rightarrow> pyerror + int" where
  "timedelta_hours hours =
     (if 999999999 < \<bar>hours div 24\<bar> then Inl OverflowError else Inr (hours * 3600000000))"

definition max_datetime :: datetime where
  "max_datetime = 3652059 * 86400000000 - 1"

definition datetime_sub :: "datetime \<Rightarrow> int \<Rightarrow> pyerror + datetime" where
  "datetime_sub t delta =
     (let r = t - delta in if r < 0 \<or> max_datetime < r then Inl OverflowError else Inr r)"

text \<open>\<^verbatim>\<open>_get_recent_predictions\<close>, lines 404 to 409: the query is not implemented.\<close>

definition get_recent_predictions :: "datetime \<Rightarrow> datetime \<Rightarrow> (string, pyval) pydict list" where
  "get_recent_predictions start_time end_time = []"

text \<open>\<^verbatim>\<open>v == 1\<close> and \<^verbatim>\<open>v in ['HIGH', 'CRITICAL']\<close> on the values of a record.\<close>

definition eq_one :: "pyval \<Rightarrow> bool" where
  "eq_one v = (case v of PyInt n \<Rightarrow> n = 1 | PyBool b \<Rightarrow> b | PyFloat x \<Rightarrow> x = Fin 1
               | PyNone \<Rightarrow> False | PyStr t \<Rightarrow> False)"

definition is_high_risk :: "pyval \<Rightarrow> bool" where
  "is_high_risk v = (v = PyStr ''HIGH'' \<or> v = PyStr ''CRITICAL'')"

text \<open>
  \<^verbatim>\<open>np.mean\<close> of a list of values: numpy raises \<^verbatim>\<open>TypeError\<close> when a value is
  \<^verbatim>\<open>None\<close> or a string, and the mean of no values is \<open>0 / 0\<close>.
\<close>

definition np_number :: "pyval \<Rightarrow> pyfloat option" where
  "np_number v = (case v of PyBool b \<Rightarrow> Some (Fin (if b then 1 else 0))
                  | PyInt n \<Rightarrow> Some (Fin (real_of_int n)) | PyFloat x \<Rightarrow> Some x
                  | PyNone \<Rightarrow> None | PyStr t \<Rightarrow> None)"

definition np_mean :: "pyval list \<Rightarrow> pyerror + pyfloat" where
  "np_mean vs = (case those (map np_number vs) of
                   None \<Rightarrow> Inl TypeError
                 | Some xs \<Rightarrow> Inr (fdiv (fsum xs) (Fin (real (length xs)))))"

text \<open>\<^verbatim>\<open>str\<close> of an integer, for the format string of line 190.\<close>

fun str_nat :: "nat \<Rightarrow> string" where
  "str_nat n = (if n < 10 then [''0123456789'' ! n]
                else str_nat (n div 10) @ [''0123456789'' ! (n mod 10)])"

declare str_nat.simps [simp del]

definition str_int :: "int \<Rightarrow> string" where
  "str_int i = (if i < 0 then CHR ''-'' # str_nat (nat (- i)) else str_nat (nat i))"

text \<open>
  \<^verbatim>\<open>collect_business_metrics\<close>, lines 150 to 195. The three readings of the clock are
  \<open>end_time\<close>, \<open>timestamp\<close> and the one of the anomaly check. The method has no
  handler. Where line 168 would yield the integer 0 the model has the float zero.
\<close>

definition collect_business_metrics ::
  "int \<Rightarrow> datetime \<Rightarrow> datetime \<Rightarrow> datetime \<Rightarrow> collector \<Rightarrow> outcome" where
  "collect_business_metrics time_period_hours end_time timestamp anomaly_time s =
     (case timedelta_hours time_period_hours of
        Inl e \<Rightarrow> \<lparr>raised = Some e, effects = [], state = s\<rparr>
      | Inr delta \<Rightarrow>
     (case datetime_sub end_time delta of
        Inl e \<Rightarrow> \<lparr>raised = Some e, effects = [], state = s\<rparr>
      | Inr start_time \<Rightarrow>
     (let predictions = get_recent_predictions start_time end_time in
      if predictions = []
      then \<lparr>raised = None, effects = [Log WARNING No_recent_predictions], state = s\<rparr>
      else
        (let total_claims = length predictions;
             fraud_claims = length (filter (\<lambda>p. eq_one (dict_get p ''is_fraud'' (PyInt 0))) predictions);
             high_risk_claims =
               length (filter (\<lambda>p. is_high_risk (dict_get p ''risk_level'' PyNone)) predictions);
             fraud_rate = (if 0 < total_claims
                           then Fin (real fraud_claims / real total_claims) else Fin 0);
             high_risk_rate = (if 0 < total_claims
                               then Fin (real high_risk_claims / real total_claims) else Fin 0)
         in case np_mean (map (\<lambda>p. dict_get p ''fraud_probability'' (PyInt 0)) predictions) of
              Inl e \<Rightarrow> \<lparr>raised = Some e, effects = [], state = s\<rparr>
            | Inr avg_fraud_prob \<Rightarrow>
           (case np_mean (map (\<lambda>p. dict_get p ''confidence'' (PyInt 0)) predictions) of
              Inl e \<Rightarrow> \<lparr>raised = Some e, effects = [], state = s\<rparr>
            | Inr avg_confidence \<Rightarrow>
               (let business_metrics =
                      [(''claims_processed_total'', PyInt (int total_claims), ''Count''),
                       (''fraud_detection_rate'', PyFloat (fmul fraud_rate (Fin 100)), ''Percent''),
                       (''high_risk_claims_rate'', PyFloat (fmul high_risk_rate (Fin 100)), ''Percent''),
                       (''average_fraud_probability'', PyFloat avg_fraud_prob, ''None''),
                       (''average_model_confidence'', PyFloat avg_confidence, ''None'')];
                    s1 = foldl (\<lambda>s (metric_name, value, unit).
                                  record_metric metric_name value unit
                                    [(''TimePeriod'', PyStr (str_int time_period_hours @ ''h''))]
                                    timestamp s)
                           s business_metrics
                in \<lparr>raised = None, effects = [],
                    state = check_business_anomalies fraud_rate avg_fraud_prob avg_confidence
                              anomaly_time s1\<rparr>))))))"

section \<open>The cost metrics\<close>

text \<open>
  The names bound in the module \<^verbatim>\<open>metrics_collector\<close>: its imports of lines 6 to 14,
  \<^verbatim>\<open>logger\<close>, the two classes, the instance and the three functions. Loading any other
  global name that is not a built-in raises \<^verbatim>\<open>NameError\<close>; \<^verbatim>\<open>os\<close> is not a built-in.
\<close>

definition module_globals :: "string list" where
  "module_globals =
     [''boto3'', ''time'', ''json'', ''logging'', ''datetime'', ''timedelta'', ''Dict'', ''List'',
      ''Any'', ''Optional'', ''dataclass'', ''np'', ''defaultdict'', ''deque'', ''logger'',
      ''MetricData'', ''MetricsCollector'', ''metrics_collector'', ''collect_prediction_metrics'',
      ''collect_api_metrics'', ''flush_all_metrics'']"

definition load_global :: "string \<Rightarrow> pyerror option" where
  "load_global name = (if name \<in> set module_globals then None else Some NameError)"

text \<open>
  The SageMaker client: \<^verbatim>\<open>boto3.client\<close> returns one or raises, and the client's
  \<^verbatim>\<open>describe_endpoint\<close> returns the production variants of the endpoint or raises.
\<close>

record production_variant =
  InstanceType :: string
  CurrentInstanceCount :: int

type_synonym describe_endpoint = "string \<Rightarrow> pyerror + production_variant list"

definition instance_costs :: "(string, real) pydict" where
  "instance_costs =
     [(''ml.t2.medium'', 65 / 1000), (''ml.m5.large'', 134 / 1000),
      (''ml.m5.xlarge'', 269 / 1000), (''ml.m5.2xlarge'', 538 / 1000)]"

text \<open>Reading \<^verbatim>\<open>self.business_metrics[k]\<close> inserts an empty deque for an absent key.\<close>

definition business_touch :: "(string, pyval list) pydict \<Rightarrow> string \<Rightarrow> (string, pyval list) pydict" where
  "business_touch d k = (if map_of d k = None then d @ [(k, [])] else d)"

text \<open>\<^verbatim>\<open>_get_hourly_prediction_count\<close>, lines 475 to 478.\<close>

definition get_hourly_prediction_count :: "collector \<Rightarrow> nat \<times> collector" where
  "get_hourly_prediction_count s =
     (length (dict_get (business_metrics s) ''fraud_probabilities'' []),
      s\<lparr>business_metrics := business_touch (business_metrics s) ''fraud_probabilities''\<rparr>)"

text \<open>
  The \<^verbatim>\<open>try\<close> block of \<^verbatim>\<open>collect_cost_metrics\<close>, lines 251 to 291: the exception
  that ends it, if any, and the collector then. The arguments of \<^verbatim>\<open>describe_endpoint\<close>
  are evaluated before the call, and the first of them loads the global \<^verbatim>\<open>os\<close>.
\<close>

definition cost_body ::
  "describe_endpoint \<Rightarrow> (string, string) pydict \<Rightarrow> datetime \<Rightarrow> collector
   \<Rightarrow> pyerror option \<times> collector" where
  "cost_body describe_endpoint environ timestamp s =
     (case load_global ''os'' of
        Some e \<Rightarrow> (Some e, s)
      | None \<Rightarrow>
     (case describe_endpoint (dict_get environ ''ENDPOINT_NAME'' ''fraud-detection-endpoint'') of
        Inl e \<Rightarrow> (Some e, s)
      | Inr variants \<Rightarrow>
     (case variants of
        [] \<Rightarrow> (Some IndexError, s)
      | variant # others \<Rightarrow>
          (let instance_type = InstanceType variant;
               instance_count = CurrentInstanceCount variant;
               hourly_cost = dict_get instance_costs instance_type (134 / 1000)
                             * real_of_int instance_count;
               (hourly_predictions, s1) = get_hourly_prediction_count s;
               cost_per_prediction =
                 (if 0 < hourly_predictions
                  then PyFloat (Fin (hourly_cost / real hourly_predictions)) else PyInt 0);
               predictions_per_dollar =
                 (if 0 < hourly_cost
                  then PyFloat (Fin (real hourly_predictions / hourly_cost)) else PyInt 0);
               cost_metrics =
                 [(''sagemaker_hourly_cost'', PyFloat (Fin hourly_cost), ''None''),
                  (''cost_per_prediction'', cost_per_prediction, ''None''),
                  (''predictions_per_dollar'', predictions_per_dollar, ''Count''),
                  (''active_instances'', PyInt instance_count, ''Count'')]
           in (None,
               foldl (\<lambda>s (metric_name, value, unit).
                        record_metric metric_name value unit
                          [(''InstanceType'', PyStr instance_type)] timestamp s)
                 s1 cost_metrics)))))"

text \<open>
  \<^verbatim>\<open>collect_cost_metrics\<close>, lines 244 to 294. The client is made on line 248, before
  the \<^verbatim>\<open>try\<close>; the handler of line 293 logs what the block raised.
\<close>

definition collect_cost_metrics ::
  "(string \<Rightarrow> string \<Rightarrow> pyerror + describe_endpoint) \<Rightarrow> (string, string) pydict \<Rightarrow> datetime
   \<Rightarrow> collector \<Rightarrow> outcome" where
  "collect_cost_metrics boto3_client environ timestamp s =
     (case boto3_client ''sagemaker'' (region s) of
        Inl e \<Rightarrow> \<lparr>raised = Some e, effects = [], state = s\<rparr>
      | Inr describe_endpoint \<Rightarrow>
          (case cost_body describe_endpoint environ timestamp s of
             (None, s') \<Rightarrow> \<lparr>raised = None, effects = [], state = s'\<rparr>
           | (Some e, s') \<Rightarrow>
               \<lparr>raised = None, effects = [Log ERROR (Failed_to_collect_cost e)], state = s'\<rparr>))"

section \<open>Notions the properties are stated with\<close>

text \<open>The values that \<^verbatim>\<open>float\<close> converts without raising.\<close>

definition float_accepts :: "pyval \<Rightarrow> bool" where
  "float_accepts v = (case py_float v of Inl e \<Rightarrow> False | Inr x \<Rightarrow> True)"

text \<open>A rolling series of the collector; a series never written is empty.\<close>

definition series :: "collector \<Rightarrow> string \<Rightarrow> pyval list" where
  "series s k = dict_get (business_metrics s) k []"

text \<open>The data listed under a key, in order.\<close>

definition ns_data :: "string \<Rightarrow> (string \<times> 'a list) list \<Rightarrow> 'a list" where
  "ns_data k calls = concat (map snd (filter (\<lambda>c. fst c = k) calls))"

text \<open>The body of the inner grouping loop.\<close>

definition group_step ::
  "(string, metric_datum list) pydict \<Rightarrow> MetricData \<Rightarrow> (string, metric_datum list) pydict" where
  "group_step acc metric =
     dict_append acc (get_metric_namespace (m_name metric)) (to_metric_data metric)"

text \<open>
  The slices \<^verbatim>\<open>metrics[i:i+20]\<close> that the loop of line 356 visits from index \<open>i\<close> on,
  and with them the calls a flush makes when no call is refused: for each namespace in the
  order of the grouping, its slices in order.
\<close>

function batches_from :: "nat \<Rightarrow> 'a list \<Rightarrow> 'a list list" where
  "batches_from i metrics =
     (if i < length metrics then take 20 (drop i metrics) # batches_from (i + 20) metrics else [])"
  by pat_completeness auto
termination
  by (relation "measure (\<lambda>(i, metrics). length metrics - i)") auto

declare batches_from.simps [simp del]

definition planned :: "(string, metric_datum list) pydict \<Rightarrow> (string \<times> metric_datum list) list" where
  "planned g = concat (map (\<lambda>(namespace, metrics). map (Pair namespace) (batches_from 0 metrics)) g)"

definition planned_calls :: "collector \<Rightarrow> (string \<times> metric_datum list) list" where
  "planned_calls s = planned (group_metrics (metric_buffer s))"

text \<open>The observations buffered under a metric name; none under a name never recorded.\<close>

definition buffered :: "collector \<Rightarrow> string \<Rightarrow> MetricData list" where
  "buffered s name = dict_get (metric_buffer s) name []"

text \<open>The anomaly observation of a given type and severity.\<close>

definition anomaly :: "datetime \<Rightarrow> string \<Rightarrow> string \<Rightarrow> MetricData" where
  "anomaly timestamp anomaly_type severity =
     \<lparr>m_name = ''business_anomaly_detected'', m_value = PyInt 1, m_unit = ''Count'',
      m_timestamp = timestamp,
      m_dimensions = [(''AnomalyType'', PyStr anomaly_type), (''Severity'', PyStr severity)]\<rparr>"

text \<open>
  A float within a closed interval, above a threshold and below a threshold, in the words
  of the specification: \<^verbatim>\<open>nan\<close> is in no interval and on neither side of a threshold.
\<close>

definition in_interval :: "real \<Rightarrow> real \<Rightarrow> pyfloat \<Rightarrow> bool" where
  "in_interval lo hi x = (case x of Fin r \<Rightarrow> (lo \<le> r \<and> r \<le> hi) | PosInf \<Rightarrow> False
                      | NegInf \<Rightarrow> False | NaN \<Rightarrow> False)"

definition above :: "real \<Rightarrow> pyfloat \<Rightarrow> bool" where
  "above t x = (case x of Fin r \<Rightarrow> (t < r) | PosInf \<Rightarrow> True | NegInf \<Rightarrow> False | NaN \<Rightarrow> False)"

definition below :: "real \<Rightarrow> pyfloat \<Rightarrow> bool" where
  "below t x = (case x of Fin r \<Rightarrow> (r < t) | PosInf \<Rightarrow> False | NegInf \<Rightarrow> True | NaN \<Rightarrow> False)"

text \<open>A finite float that is positive, and one that is not negative.\<close>

definition pos_fin :: "pyfloat \<Rightarrow> bool" where
  "pos_fin x = (case x of Fin r \<Rightarrow> (0 < r) | PosInf \<Rightarrow> False | NegInf \<Rightarrow> False | NaN \<Rightarrow> False)"

definition nonneg_fin :: "pyfloat \<Rightarrow> bool" where
  "nonneg_fin x = (case x of Fin r \<Rightarrow> (0 \<le> r) | PosInf \<Rightarrow> False | NegInf \<Rightarrow> False | NaN \<Rightarrow> False)"

text \<open>A finite float strictly between 0 and 1.\<close>

definition in_unit_open :: "pyfloat \<Rightarrow> bool" where
  "in_unit_open x = (case x of Fin r \<Rightarrow> (0 < r \<and> r < 1) | PosInf \<Rightarrow> False | NegInf \<Rightarrow> False
                       | NaN \<Rightarrow> False)"

section \<open>Properties of the namespace classifier\<close>

lemma startswith_has_prefix: "startswith s p = has_prefix p s"
  unfolding startswith_def has_prefix_def
proof
  assume "take (length p) s = p"
  then have "s = p @ drop (length p) s"
    by (metis append_take_drop_id)
  then show "\<exists>r. s = p @ r" ..
next
  assume "\<exists>r. s = p @ r"
  then show "take (length p) s = p" by auto
qed

lemma str_in_has_substring: "str_in p s = has_substring p s"
proof (induction s)
  case Nil
  show ?case by (auto simp: has_substring_def)
next
  case (Cons c cs)
  show ?case
  proof
    assume "str_in p (c # cs)"
    then consider "startswith (c # cs) p" | "str_in p cs" by auto
    then show "has_substring p (c # cs)"
    proof cases
      case 1
      then obtain r where "c # cs = p @ r"
        using startswith_has_prefix has_prefix_def by auto
      then have "c # cs = [] @ p @ r" by simp
      then show ?thesis unfolding has_substring_def by blast
    next
      case 2
      then obtain l r where "cs = l @ p @ r"
        using Cons.IH has_substring_def by auto
      then have "c # cs = (c # l) @ p @ r" by simp
      then show ?thesis unfolding has_substring_def by blast
    qed
  next
    assume "has_substring p (c # cs)"
    then obtain l r where lr: "c # cs = l @ p @ r"
      unfolding has_substring_def by blast
    show "str_in p (c # cs)"
    proof (cases l)
      case Nil
      with lr have "has_prefix p (c # cs)" unfolding has_prefix_def by auto
      then show ?thesis by (simp add: startswith_has_prefix)
    next
      case (Cons a l')
      with lr have "cs = l' @ p @ r" by simp
      then have "has_substring p cs" unfolding has_substring_def by blast
      then show ?thesis using Cons.IH by simp
    qed
  qed
qed

text \<open>
  C5. The classifier of the code is the first-match-wins evaluation of the ordered rule
  table of the specification, for every metric name; it is a total function by
  construction. \<^verbatim>\<open>cost_per_prediction\<close> goes to Cost, and \<^verbatim>\<open>api_cost_tracker\<close> goes to
  API although it contains \<^verbatim>\<open>cost\<close>.
\<close>

theorem get_metric_namespace_first_match:
  "get_metric_namespace n = first_match spec_rules n
   \<and> get_metric_namespace ''cost_per_prediction'' = ''FraudDetection/Cost''
   \<and> get_metric_namespace ''api_cost_tracker'' = ''FraudDetection/API''"
proof -
  have "get_metric_namespace n = first_match spec_rules n"
    by (simp add: get_metric_namespace_def spec_rules_def
        startswith_has_prefix str_in_has_substring)
  moreover have "get_metric_namespace ''cost_per_prediction'' = ''FraudDetection/Cost''"
    by (simp add: get_metric_namespace_def startswith_def)
  moreover have "get_metric_namespace ''api_cost_tracker'' = ''FraudDetection/API''"
    by (simp add: get_metric_namespace_def startswith_def)
  ultimately show ?thesis by simp
qed

section \<open>Properties of the prediction metrics\<close>

lemma record_metric_business [simp]:
  "business_metrics (record_metric n v u d t s) = business_metrics s"
  by (simp add: record_metric_def)

lemma collect_features_returns_iff:
  "fst (collect_features fs cd ts s) = None \<longleftrightarrow>
   (\<forall>f\<in>set fs. \<forall>v. map_of cd f = Some v \<longrightarrow> float_accepts v)"
  by (induction fs arbitrary: s) (auto simp: float_accepts_def split: option.splits sum.splits)

lemma collect_features_business [simp]:
  "business_metrics (snd (collect_features fs cd ts s)) = business_metrics s"
  by (induction fs arbitrary: s) (auto split: option.splits sum.splits)

lemma dict_get_business_append:
  "dict_get (business_append d k v) k' [] =
     (if k' = k then deque_append 1000 (dict_get d k []) v else dict_get d k' [])"
  by (induction d) (auto simp: dict_get_def)

lemma series_collect_prediction_metrics:
  "series (snd (collect_prediction_metrics pd pt cd ts s)) ''fraud_probabilities'' =
     deque_append 1000 (series s ''fraud_probabilities'') (dict_get pd ''fraud_probability'' (PyInt 0))"
  "series (snd (collect_prediction_metrics pd pt cd ts s)) ''confidences'' =
     deque_append 1000 (series s ''confidences'') (dict_get pd ''confidence'' (PyInt 0))"
  by (simp_all add: series_def collect_prediction_metrics_def collect_feature_metrics_def
      Let_def dict_get_business_append)

text \<open>
  C2, as the code has it. \<^verbatim>\<open>collect_prediction_metrics\<close> on dictionaries returns without
  raising exactly when \<^verbatim>\<open>float\<close> accepts the value of every monitored feature that is
  present in \<^verbatim>\<open>claim_data\<close>; otherwise the exception of the coercion leaves the method.
\<close>

theorem collect_prediction_metrics_returns_iff:
  "fst (collect_prediction_metrics prediction_data processing_time claim_data timestamp s) = None
   \<longleftrightarrow> (\<forall>feature \<in> set key_features. \<forall>v. map_of claim_data feature = Some v \<longrightarrow> float_accepts v)"
  by (simp add: collect_prediction_metrics_def collect_feature_metrics_def Let_def
      collect_features_returns_iff)

theorem collect_prediction_metrics_returns_iff_witness:
  "fst (collect_prediction_metrics [(''fraud_probability'', PyFloat (Fin (1 / 2)))]
          (PyFloat (Fin 12)) [(''age'', PyInt 42), (''claim_ratio'', PyStr ''0.35'')] 0
          (init_collector ''us-east-1'')) = None"
proof -
  have "\<forall>feature \<in> set key_features.
      \<forall>v. map_of [(''age'', PyInt 42), (''claim_ratio'', PyStr ''0.35'')] feature = Some v
          \<longrightarrow> float_accepts v"
    by (simp add: key_features_def float_accepts_def py_float_def float_of_string_def
        strip_def split_sign_def is_space_def parse_decimal_def parse_exponent_def is_digit_def
        lower_def Let_def)
  then show ?thesis
    using collect_prediction_metrics_returns_iff
      [of "[(''fraud_probability'', PyFloat (Fin (1 / 2)))]" "PyFloat (Fin 12)"
          "[(''age'', PyInt 42), (''claim_ratio'', PyStr ''0.35'')]" 0 "init_collector ''us-east-1''"]
    by simp
qed

text \<open>
  C2 as stated fails: a claim whose \<^verbatim>\<open>incident_severity\<close> is the string
  \<^verbatim>\<open>Major Damage\<close> makes \<^verbatim>\<open>collect_prediction_metrics\<close> raise \<^verbatim>\<open>ValueError\<close>.
\<close>

theorem collect_prediction_metrics_raises_ValueError:
  "fst (collect_prediction_metrics [(''fraud_probability'', PyFloat (Fin (1 / 2)))]
          (PyFloat (Fin 12)) [(''incident_severity'', PyStr ''Major Damage'')] 0
          (init_collector ''us-east-1'')) = Some ValueError"
  by (simp add: collect_prediction_metrics_def collect_feature_metrics_def key_features_def
      py_float_def float_of_string_def strip_def split_sign_def is_space_def parse_decimal_def
      is_digit_def lower_def Let_def)

section \<open>Properties of the rolling series\<close>

lemma length_deque_append:
  "length q \<le> m \<Longrightarrow> length (deque_append m q x) \<le> m"
  by (auto simp: deque_append_def Let_def)

lemma deque_append_drop:
  "length q \<le> m \<Longrightarrow> deque_append m q x = drop (length q + 1 - m) (q @ [x])"
  by (cases q) (auto simp: deque_append_def Let_def drop_Cons')

lemma foldl_deque_append:
  "length q \<le> m \<Longrightarrow> foldl (deque_append m) q vs = drop (length q + length vs - m) (q @ vs)"
proof (induction vs arbitrary: q)
  case Nil
  then show ?case by simp
next
  case (Cons v vs)
  let ?q' = "deque_append m q v"
  have len: "length ?q' \<le> m" using Cons.prems by (rule length_deque_append)
  have q': "?q' = drop (length q + 1 - m) (q @ [v])"
    using Cons.prems by (rule deque_append_drop)
  have "foldl (deque_append m) q (v # vs) = foldl (deque_append m) ?q' vs" by simp
  also have "\<dots> = drop (length ?q' + length vs - m) (?q' @ vs)"
    using len by (rule Cons.IH)
  also have "\<dots> = drop (length q + length (v # vs) - m) (q @ v # vs)"
  proof (cases "length q < m")
    case True
    then have "?q' = q @ [v]" by (simp add: deque_append_def Let_def)
    then show ?thesis by simp
  next
    case False
    with Cons.prems have lq: "length q = m" by simp
    then have eq: "?q' = drop 1 (q @ [v])" using q' by simp
    have "length ?q' = m" using lq eq by simp
    then show ?thesis using lq eq
      by (simp add: drop_Cons')
  qed
  finally show ?case .
qed

lemma funpow_series:
  "series (((\<lambda>s. snd (collect_prediction_metrics pd pt cd ts s)) ^^ n) s) ''fraud_probabilities'' =
   foldl (deque_append 1000) (series s ''fraud_probabilities'')
     (replicate n (dict_get pd ''fraud_probability'' (PyInt 0)))"
proof (induction n)
  case 0
  show ?case by simp
next
  case (Suc n)
  have "replicate (Suc n) (dict_get pd ''fraud_probability'' (PyInt 0)) =
        replicate n (dict_get pd ''fraud_probability'' (PyInt 0))
        @ [dict_get pd ''fraud_probability'' (PyInt 0)]"
    by (simp add: replicate_append_same)
  then show ?case
    by (simp only: funpow.simps o_apply series_collect_prediction_metrics Suc.IH foldl_append
        foldl.simps)
qed

text \<open>
  C3, as the code has it. The two rolling series are deques of capacity 1000, the
  \<^verbatim>\<open>maxlen\<close> of line 39; the 100 of line 43 is the window the drift check reads. Each
  call of \<^verbatim>\<open>collect_prediction_metrics\<close>, whether or not it raises, appends one value to
  each series. A series within the capacity stays within it, and inserting 1050 values
  leaves exactly the 1000 inserted last, in order.
\<close>

theorem rolling_series_capacity_1000:
  "series (snd (collect_prediction_metrics pd pt cd ts s)) ''fraud_probabilities'' =
     deque_append 1000 (series s ''fraud_probabilities'') (dict_get pd ''fraud_probability'' (PyInt 0))
   \<and> series (snd (collect_prediction_metrics pd pt cd ts s)) ''confidences'' =
     deque_append 1000 (series s ''confidences'') (dict_get pd ''confidence'' (PyInt 0))
   \<and> (length q \<le> 1000 \<longrightarrow>
        length (foldl (deque_append 1000) q vs) \<le> 1000
        \<and> (length vs = 1050 \<longrightarrow> foldl (deque_append 1000) q vs = drop 50 vs))"
proof -
  have "length (foldl (deque_append 1000) q vs) \<le> 1000
        \<and> (length vs = 1050 \<longrightarrow> foldl (deque_append 1000) q vs = drop 50 vs)"
    if q: "length q \<le> 1000"
  proof -
    have eq: "foldl (deque_append 1000) q vs = drop (length q + length vs - 1000) (q @ vs)"
      using q by (rule foldl_deque_append)
    have "length (foldl (deque_append 1000) q vs) \<le> 1000"
      unfolding eq using q by simp
    moreover have "foldl (deque_append 1000) q vs = drop 50 vs" if "length vs = 1050"
      unfolding eq using q that by simp
    ultimately show ?thesis by simp
  qed
  then show ?thesis
    by (simp add: series_collect_prediction_metrics)
qed

theorem rolling_series_capacity_1000_witness:
  "length ([] :: pyval list) \<le> 1000
   \<and> length (map (\<lambda>i. PyInt (int i)) [0..<1050]) = 1050
   \<and> foldl (deque_append 1000) [] (map (\<lambda>i. PyInt (int i)) [0..<1050])
       = drop 50 (map (\<lambda>i. PyInt (int i)) [0..<1050])"
  using rolling_series_capacity_1000 [of _ _ _ _ _ "[]" "map (\<lambda>i. PyInt (int i)) [0..<1050]"]
  by simp

text \<open>
  C3 as stated fails: after 150 calls of \<^verbatim>\<open>collect_prediction_metrics\<close> on a new
  collector the series of fraud probabilities holds more than 100 values.
\<close>

theorem rolling_series_holds_150:
  "\<not> length (series (((\<lambda>s. snd (collect_prediction_metrics
                 [(''fraud_probability'', PyFloat (Fin (1 / 2)))] (PyFloat (Fin 12)) [] 0 s)) ^^ 150)
               (init_collector ''us-east-1'')) ''fraud_probabilities'') \<le> 100"
proof -
  have "series (init_collector ''us-east-1'') ''fraud_probabilities'' = []"
    by (simp add: series_def init_collector_def dict_get_def)
  then show ?thesis
    by (simp add: funpow_series foldl_deque_append)
qed

section \<open>Properties of the flush\<close>

lemma ns_data_append [simp]: "ns_data k (xs @ ys) = ns_data k xs @ ns_data k ys"
  by (simp add: ns_data_def)

lemma ns_data_Nil [simp]: "ns_data k [] = []"
  by (simp add: ns_data_def)

lemma ns_data_Cons [simp]:
  "ns_data k ((n, b) # xs) = (if n = k then b else []) @ ns_data k xs"
  by (simp add: ns_data_def)

lemma accepted_Nil [simp]: "accepted put []"
  by (simp add: accepted_def)

lemma accepted_snoc:
  "accepted put (calls @ [c]) \<longleftrightarrow> accepted put calls \<and> put calls (fst c) (snd c) = None"
proof
  assume a: "accepted put (calls @ [c])"
  have "accepted put calls"
    unfolding accepted_def
  proof (intro allI impI)
    fix k assume k: "k < length calls"
    then have "put (take k (calls @ [c])) (fst ((calls @ [c]) ! k)) (snd ((calls @ [c]) ! k)) = None"
      using a by (simp add: accepted_def)
    with k show "put (take k calls) (fst (calls ! k)) (snd (calls ! k)) = None"
      by (simp add: nth_append)
  qed
  moreover have "put calls (fst c) (snd c) = None"
    using a [unfolded accepted_def, rule_format, of "length calls"] by simp
  ultimately show "accepted put calls \<and> put calls (fst c) (snd c) = None" ..
next
  assume a: "accepted put calls \<and> put calls (fst c) (snd c) = None"
  show "accepted put (calls @ [c])"
    unfolding accepted_def
  proof (intro allI impI)
    fix k assume "k < length (calls @ [c])"
    then consider "k < length calls" | "k = length calls" by fastforce
    then show "put (take k (calls @ [c])) (fst ((calls @ [c]) ! k)) (snd ((calls @ [c]) ! k)) = None"
    proof cases
      case 1
      with a show ?thesis by (simp add: accepted_def nth_append)
    next
      case 2
      with a show ?thesis by simp
    qed
  qed
qed

lemma put_batches_accepted:
  "accepted put calls \<Longrightarrow>
   (fst (put_batches put ns ms i calls) = None) = accepted put (snd (put_batches put ns ms i calls))"
proof (induction put ns ms i calls rule: put_batches.induct)
  case (1 put ns ms i calls)
  show ?case
  proof (cases "i < length ms")
    case False
    then show ?thesis using "1.prems" by (simp add: put_batches.simps)
  next
    case True
    let ?b = "take 20 (drop i ms)"
    show ?thesis
    proof (cases "put calls ns ?b")
      case (Some e)
      then have "\<not> accepted put (calls @ [(ns, ?b)])" by (simp add: accepted_snoc)
      with True Some show ?thesis
        by (simp add: put_batches.simps [of put ns ms i calls])
    next
      case None
      then have "accepted put (calls @ [(ns, ?b)])"
        using "1.prems" by (simp add: accepted_snoc)
      from "1.IH" [OF True refl None this] True None show ?thesis
        by (simp add: put_batches.simps [of put ns ms i calls])
    qed
  qed
qed

lemma send_namespaces_accepted:
  "accepted put calls \<Longrightarrow>
   (fst (send_namespaces put g calls) = None) = accepted put (snd (send_namespaces put g calls))"
proof (induction g arbitrary: calls)
  case Nil
  then show ?case by simp
next
  case (Cons a g)
  obtain ns ms where a: "a = (ns, ms)" by (cases a)
  obtain err calls' where r: "put_batches put ns ms 0 calls = (err, calls')"
    by (cases "put_batches put ns ms 0 calls")
  have acc: "(err = None) = accepted put calls'"
    using put_batches_accepted [OF Cons.prems, of ns ms 0] r by simp
  show ?case
  proof (cases err)
    case None
    with acc have "accepted put calls'" by simp
    from Cons.IH [OF this] a r None show ?thesis by simp
  next
    case (Some e)
    with acc a r show ?thesis by simp
  qed
qed

lemma put_batches_calls:
  "c \<in> set (snd (put_batches put ns ms i calls)) \<Longrightarrow>
   c \<in> set calls \<or> (fst c = ns \<and> snd c \<noteq> [] \<and> length (snd c) \<le> 20 \<and> set (snd c) \<subseteq> set ms)"
proof (induction put ns ms i calls rule: put_batches.induct)
  case (1 put ns ms i calls)
  show ?case
  proof (cases "i < length ms")
    case False
    then show ?thesis using "1.prems" by (simp add: put_batches.simps)
  next
    case True
    let ?b = "take 20 (drop i ms)"
    have b: "?b \<noteq> [] \<and> length ?b \<le> 20 \<and> set ?b \<subseteq> set ms"
      using True by (auto dest!: in_set_takeD in_set_dropD)
    show ?thesis
    proof (cases "put calls ns ?b")
      case (Some e)
      with True "1.prems" have "c \<in> set (calls @ [(ns, ?b)])"
        by (simp add: put_batches.simps [of put ns ms i calls])
      with b show ?thesis by auto
    next
      case None
      with True "1.prems" have "c \<in> set (snd (put_batches put ns ms (i + 20) (calls @ [(ns, ?b)])))"
        by (simp add: put_batches.simps [of put ns ms i calls])
      from "1.IH" [OF True refl None this] b show ?thesis by auto
    qed
  qed
qed

lemma send_namespaces_calls:
  "c \<in> set (snd (send_namespaces put g calls)) \<Longrightarrow>
   c \<in> set calls \<or>
   (\<exists>ms. (fst c, ms) \<in> set g \<and> snd c \<noteq> [] \<and> length (snd c) \<le> 20 \<and> set (snd c) \<subseteq> set ms)"
proof (induction g arbitrary: calls)
  case Nil
  then show ?case by simp
next
  case (Cons a g)
  obtain ns ms where a: "a = (ns, ms)" by (cases a)
  obtain err calls' where r: "put_batches put ns ms 0 calls = (err, calls')"
    by (cases "put_batches put ns ms 0 calls")
  have step: "c \<in> set calls' \<Longrightarrow> ?case"
    using put_batches_calls [of c put ns ms 0 calls] r a by auto
  show ?case
  proof (cases err)
    case None
    with Cons.prems a r have "c \<in> set (snd (send_namespaces put g calls'))" by simp
    from Cons.IH [OF this] step show ?thesis by auto
  next
    case (Some e)
    with Cons.prems a r have "c \<in> set calls'" by simp
    then show ?thesis by (rule step)
  qed
qed


subsection \<open>Grouping\<close>

lemma fst_dict_append:
  "fst ` set (dict_append d k v) = insert k (fst ` set d)"
proof (induction d)
  case Nil
  show ?case by simp
next
  case (Cons a d)
  obtain k' vs where a: "a = (k', vs)" by (cases a)
  show ?case
  proof (cases "k' = k")
    case True
    with a show ?thesis by simp
  next
    case False
    with a Cons.IH show ?thesis by (simp add: insert_commute)
  qed
qed

lemma distinct_dict_append:
  "distinct (map fst d) \<Longrightarrow> distinct (map fst (dict_append d k v))"
proof (induction d)
  case Nil
  show ?case by simp
next
  case (Cons a d)
  obtain k' vs where a: "a = (k', vs)" by (cases a)
  show ?case
  proof (cases "k' = k")
    case True
    with a Cons.prems show ?thesis by simp
  next
    case False
    with a Cons show ?thesis by (simp add: fst_dict_append)
  qed
qed

lemma ns_data_absent: "k \<notin> fst ` set d \<Longrightarrow> ns_data k d = []"
  by (induction d) auto

lemma ns_data_dict_append:
  "distinct (map fst d) \<Longrightarrow>
   ns_data k (dict_append d n v) = ns_data k d @ (if k = n then [v] else [])"
  by (induction d) (auto simp: ns_data_absent)

lemma namespace_of_to_metric_data [simp]:
  "namespace_of (to_metric_data m) = get_metric_namespace (m_name m)"
  by (simp add: namespace_of_def to_metric_data_def)

lemma foldl_group_step:
  "distinct (map fst acc) \<Longrightarrow>
   distinct (map fst (foldl group_step acc ms)) \<and>
   ns_data k (foldl group_step acc ms) =
     ns_data k acc @ filter (\<lambda>d. namespace_of d = k) (map to_metric_data ms)"
proof (induction ms arbitrary: acc)
  case Nil
  then show ?case by simp
next
  case (Cons m ms)
  have d: "distinct (map fst (group_step acc m))"
    using Cons.prems by (simp add: group_step_def distinct_dict_append)
  from Cons.IH [OF d] Cons.prems show ?case
    by (simp add: group_step_def ns_data_dict_append)
qed

lemma dict_append_members:
  "\<forall>(n, xs) \<in> set d. \<forall>x \<in> set xs. namespace_of x = n \<Longrightarrow> namespace_of v = k \<Longrightarrow>
   \<forall>(n, xs) \<in> set (dict_append d k v). \<forall>x \<in> set xs. namespace_of x = n"
proof (induction d)
  case Nil
  then show ?case by simp
next
  case (Cons a d)
  obtain k' vs where a: "a = (k', vs)" by (cases a)
  have tl: "\<forall>(n, xs) \<in> set d. \<forall>x \<in> set xs. namespace_of x = n"
    using Cons.prems(1) by simp
  have hd: "\<forall>x \<in> set vs. namespace_of x = k'"
    using Cons.prems(1) a by simp
  show ?case
  proof (cases "k' = k")
    case True
    with a tl hd Cons.prems(2) show ?thesis by simp
  next
    case False
    with a hd Cons.IH [OF tl Cons.prems(2)] show ?thesis by simp
  qed
qed

lemma foldl_group_step_members:
  "(ns, ds) \<in> set (foldl group_step acc ms) \<Longrightarrow>
   \<forall>(n, xs) \<in> set acc. \<forall>d \<in> set xs. namespace_of d = n \<Longrightarrow>
   \<forall>d \<in> set ds. namespace_of d = ns"
proof (induction ms arbitrary: acc)
  case Nil
  then show ?case by auto
next
  case (Cons m ms)
  have "\<forall>(n, xs) \<in> set (group_step acc m). \<forall>d \<in> set xs. namespace_of d = n"
    unfolding group_step_def using Cons.prems(2)
    by (intro dict_append_members) simp_all
  from Cons.IH [OF _ this] Cons.prems(1) show ?case by simp
qed

lemma group_metrics_foldl:
  "group_metrics buffer = foldl group_step [] (concat (map snd buffer))"
proof -
  have "foldl (\<lambda>acc metrics_list. foldl group_step acc metrics_list) acc xss =
        foldl group_step acc (concat xss)" for acc xss
    by (induction xss arbitrary: acc) simp_all
  then show ?thesis
    by (simp add: group_metrics_def group_step_def [abs_def])
qed

lemma ns_data_group_metrics:
  "ns_data k (group_metrics (metric_buffer s)) = filter (\<lambda>d. namespace_of d = k) (buffered_data s)"
  using foldl_group_step [where acc = "[]" and k = k and ms = "concat (map snd (metric_buffer s))"]
  by (simp add: group_metrics_foldl buffered_data_def)

lemma group_metrics_members:
  "(ns, ds) \<in> set (group_metrics (metric_buffer s)) \<Longrightarrow> \<forall>d \<in> set ds. namespace_of d = ns"
  using foldl_group_step_members [where acc = "[]" and ns = ns and ds = ds and ms = "concat (map snd (metric_buffer s))"]
  by (simp add: group_metrics_foldl)

subsection \<open>The batches of accepted calls\<close>

lemma put_batches_ns_data:
  "fst (put_batches put ns ms i calls) = None \<Longrightarrow>
   ns_data k (snd (put_batches put ns ms i calls)) =
     ns_data k calls @ (if k = ns then drop i ms else [])"
proof (induction put ns ms i calls rule: put_batches.induct)
  case (1 put ns ms i calls)
  show ?case
  proof (cases "i < length ms")
    case False
    then show ?thesis by (simp add: put_batches.simps)
  next
    case True
    let ?b = "take 20 (drop i ms)"
    show ?thesis
    proof (cases "put calls ns ?b")
      case (Some e)
      with True "1.prems" show ?thesis
        by (simp add: put_batches.simps [of put ns ms i calls])
    next
      case None
      with True "1.prems" have "fst (put_batches put ns ms (i + 20) (calls @ [(ns, ?b)])) = None"
        by (simp add: put_batches.simps [of put ns ms i calls])
      from "1.IH" [OF True refl None this]
      have "ns_data k (snd (put_batches put ns ms (i + 20) (calls @ [(ns, ?b)]))) =
            ns_data k calls @ (if k = ns then ?b @ drop (i + 20) ms else [])"
        by simp
      moreover have "?b @ drop (i + 20) ms = drop i ms"
        by (metis add.commute append_take_drop_id drop_drop)
      ultimately show ?thesis using True None
        by (simp add: put_batches.simps [of put ns ms i calls])
    qed
  qed
qed

lemma send_namespaces_ns_data:
  "fst (send_namespaces put g calls) = None \<Longrightarrow>
   ns_data k (snd (send_namespaces put g calls)) = ns_data k calls @ ns_data k g"
proof (induction g arbitrary: calls)
  case Nil
  then show ?case by simp
next
  case (Cons a g)
  obtain ns ms where a: "a = (ns, ms)" by (cases a)
  obtain err calls' where r: "put_batches put ns ms 0 calls = (err, calls')"
    by (cases "put_batches put ns ms 0 calls")
  show ?case
  proof (cases err)
    case None
    with Cons.prems a r have "fst (send_namespaces put g calls') = None" by simp
    from Cons.IH [OF this] put_batches_ns_data [of put ns ms 0 calls k] a r None
    show ?thesis by auto
  next
    case (Some e)
    with Cons.prems a r show ?thesis by simp
  qed
qed

lemma three_batches: "take 20 xs @ take 20 (drop 20 xs) @ drop 40 xs = xs"
proof -
  have "drop 20 (drop 20 xs) = drop 40 xs" by simp
  then have "take 20 (drop 20 xs) @ drop 40 xs = drop 20 xs"
    by (metis append_take_drop_id)
  then show ?thesis by (metis append_take_drop_id)
qed

text \<open>With 45 observations the loop makes three calls.\<close>

lemma put_batches_45:
  assumes "length ms = 45" and "fst (put_batches put ns ms 0 []) = None"
  shows "snd (put_batches put ns ms 0 []) =
         [(ns, take 20 ms), (ns, take 20 (drop 20 ms)), (ns, drop 40 ms)]"
proof -
  let ?c1 = "[(ns, take 20 ms)]"
  let ?c2 = "[(ns, take 20 ms), (ns, take 20 (drop 20 ms))]"
  let ?c3 = "[(ns, take 20 ms), (ns, take 20 (drop 20 ms)), (ns, drop 40 ms)]"
  have e0: "put_batches put ns ms 0 [] =
            (case put [] ns (take 20 ms) of Some e \<Rightarrow> (Some e, ?c1)
             | None \<Rightarrow> put_batches put ns ms 20 ?c1)"
    using assms(1) by (simp add: put_batches.simps [of put ns ms 0 "[]"] Let_def split: option.splits)
  have e1: "put_batches put ns ms 20 ?c1 =
            (case put ?c1 ns (take 20 (drop 20 ms)) of Some e \<Rightarrow> (Some e, ?c2)
             | None \<Rightarrow> put_batches put ns ms 40 ?c2)"
    using assms(1) by (simp add: put_batches.simps [of put ns ms 20 ?c1] Let_def split: option.splits)
  have e2: "put_batches put ns ms 40 ?c2 =
            (case put ?c2 ns (drop 40 ms) of Some e \<Rightarrow> (Some e, ?c3)
             | None \<Rightarrow> put_batches put ns ms 60 ?c3)"
    using assms(1) by (simp add: put_batches.simps [of put ns ms 40 ?c2] Let_def split: option.splits)
  have e3: "put_batches put ns ms 60 ?c3 = (None, ?c3)"
    using assms(1) by (simp add: put_batches.simps [of put ns ms 60 ?c3] Let_def split: option.splits)
  have "snd (put_batches put ns ms 0 []) = ?c3"
    using assms(2) unfolding e0 e1 e2 e3 by (auto split: option.splits)
  then show ?thesis using assms(1) by simp
qed

lemma foldl_group_step_single:
  "\<forall>m \<in> set ms. get_metric_namespace (m_name m) = ns \<Longrightarrow>
   foldl group_step [(ns, xs)] ms = [(ns, xs @ map to_metric_data ms)]"
  by (induction ms arbitrary: xs) (simp_all add: group_step_def)

lemma group_metrics_single:
  assumes "buffered_data s \<noteq> []" and "\<forall>d \<in> set (buffered_data s). namespace_of d = ns"
  shows "group_metrics (metric_buffer s) = [(ns, buffered_data s)]"
proof -
  let ?ms = "concat (map snd (metric_buffer s))"
  from assms(1) obtain m ms where ms: "?ms = m # ms"
    by (cases ?ms) (auto simp: buffered_data_def)
  have all: "\<forall>m \<in> set ?ms. get_metric_namespace (m_name m) = ns"
    using assms(2) by (simp add: buffered_data_def)
  then have "foldl group_step [] ?ms = foldl group_step [(ns, [to_metric_data m])] ms"
    by (simp add: ms group_step_def)
  also have "\<dots> = [(ns, [to_metric_data m] @ map to_metric_data ms)]"
    using all by (intro foldl_group_step_single) (simp add: ms)
  finally show ?thesis
    by (simp add: group_metrics_foldl buffered_data_def ms)
qed


subsection \<open>The flush as a whole\<close>

lemma puts_flush_metrics:
  "puts (flush_metrics put s) =
     (if metric_buffer s = [] then []
      else snd (send_namespaces put (group_metrics (metric_buffer s)) []))"
proof -
  have "concat (map (\<lambda>e. case e of Put ns b \<Rightarrow> [(ns, b)] | Log l m \<Rightarrow> [])
          (map (\<lambda>(ns, b). Put ns b) calls @ [Log l m])) = calls" for calls l m
    by (induction calls) auto
  then show ?thesis
    by (simp add: puts_def flush_metrics_def Let_def split: prod.splits option.splits)
qed

lemma flush_metrics_accepted:
  "metric_buffer s \<noteq> [] \<Longrightarrow>
   accepted put (puts (flush_metrics put s)) =
     (fst (send_namespaces put (group_metrics (metric_buffer s)) []) = None)"
  using send_namespaces_accepted [of put "[]" "group_metrics (metric_buffer s)"]
  by (simp add: puts_flush_metrics)

lemma put_batches_planned:
  "\<exists>k. snd (put_batches put ns ms i calls) = calls @ take k (map (Pair ns) (batches_from i ms))
       \<and> (fst (put_batches put ns ms i calls) = None \<longrightarrow>
            snd (put_batches put ns ms i calls) = calls @ map (Pair ns) (batches_from i ms))"
proof (induction put ns ms i calls rule: put_batches.induct)
  case (1 put ns ms i calls)
  show ?case
  proof (cases "i < length ms")
    case False
    then show ?thesis
      by (simp add: put_batches.simps [of put ns ms i calls] batches_from.simps [of i ms])
  next
    case True
    let ?b = "take 20 (drop i ms)"
    have B: "map (Pair ns) (batches_from i ms) = (ns, ?b) # map (Pair ns) (batches_from (i + 20) ms)"
      using True by (simp add: batches_from.simps [of i ms])
    show ?thesis
    proof (cases "put calls ns ?b")
      case (Some e)
      then have r: "put_batches put ns ms i calls = (Some e, calls @ [(ns, ?b)])"
        using True by (simp add: put_batches.simps [of put ns ms i calls])
      have "calls @ [(ns, ?b)] = calls @ take 1 (map (Pair ns) (batches_from i ms))"
        unfolding B by simp
      then have f1: "snd (put_batches put ns ms i calls)
                     = calls @ take 1 (map (Pair ns) (batches_from i ms))"
        unfolding r by simp
      have f2: "fst (put_batches put ns ms i calls) = None \<longrightarrow>
            snd (put_batches put ns ms i calls) = calls @ map (Pair ns) (batches_from i ms)"
        unfolding r by simp
      show ?thesis
        by (rule exI [of _ 1], rule conjI, rule f1, rule f2)
    next
      case None
      then have r: "put_batches put ns ms i calls
                    = put_batches put ns ms (i + 20) (calls @ [(ns, ?b)])"
        using True by (simp add: put_batches.simps [of put ns ms i calls])
      from "1.IH" [OF True refl None] obtain k where
        both: "snd (put_batches put ns ms (i + 20) (calls @ [(ns, ?b)]))
            = (calls @ [(ns, ?b)]) @ take k (map (Pair ns) (batches_from (i + 20) ms))
          \<and> (fst (put_batches put ns ms (i + 20) (calls @ [(ns, ?b)])) = None \<longrightarrow>
            snd (put_batches put ns ms (i + 20) (calls @ [(ns, ?b)]))
            = (calls @ [(ns, ?b)]) @ map (Pair ns) (batches_from (i + 20) ms))" ..
      note k = both [THEN conjunct1] and all = both [THEN conjunct2]
      have f1: "snd (put_batches put ns ms i calls)
            = calls @ take (Suc k) (map (Pair ns) (batches_from i ms))"
        unfolding r k B by simp
      have f2: "fst (put_batches put ns ms i calls) = None \<longrightarrow>
            snd (put_batches put ns ms i calls) = calls @ map (Pair ns) (batches_from i ms)"
        unfolding r B using all by simp
      show ?thesis
        by (rule exI [of _ "Suc k"], rule conjI, rule f1, rule f2)
    qed
  qed
qed

lemma send_namespaces_planned:
  "\<exists>k. snd (send_namespaces put g calls) = calls @ take k (planned g)
       \<and> (fst (send_namespaces put g calls) = None \<longrightarrow>
            snd (send_namespaces put g calls) = calls @ planned g)"
proof (induction g arbitrary: calls)
  case Nil
  show ?case by (simp add: planned_def)
next
  case (Cons a g)
  obtain ns ms where a: "a = (ns, ms)" by (cases a)
  let ?B = "map (Pair ns) (batches_from 0 ms)"
  have pl: "planned (a # g) = ?B @ planned g" by (simp add: planned_def a)
  obtain err calls' where r: "put_batches put ns ms 0 calls = (err, calls')"
    by (cases "put_batches put ns ms 0 calls")
  from put_batches_planned [of put ns ms 0 calls] obtain k where
    both: "snd (put_batches put ns ms 0 calls) = calls @ take k ?B
           \<and> (fst (put_batches put ns ms 0 calls) = None \<longrightarrow>
                snd (put_batches put ns ms 0 calls) = calls @ ?B)" ..
  have fs: "fst (put_batches put ns ms 0 calls) = err" "snd (put_batches put ns ms 0 calls) = calls'"
    using r by simp_all
  have k: "calls' = calls @ take k ?B"
    using both [THEN conjunct1] unfolding fs .
  have all: "err = None \<longrightarrow> calls' = calls @ ?B"
    using both [THEN conjunct2] unfolding fs .
  show ?case
  proof (cases err)
    case (Some e)
    have s: "send_namespaces put (a # g) calls = (Some e, calls')"
      using a r Some by simp
    have "take k ?B = take (min k (length ?B)) (planned (a # g))"
      unfolding pl by (simp add: min_def)
    then have f1: "snd (send_namespaces put (a # g) calls)
               = calls @ take (min k (length ?B)) (planned (a # g))"
      unfolding s using k by simp
    have f2: "fst (send_namespaces put (a # g) calls) = None \<longrightarrow>
          snd (send_namespaces put (a # g) calls) = calls @ planned (a # g)"
      unfolding s by simp
    show ?thesis
      by (rule exI [of _ "min k (length ?B)"], rule conjI, rule f1, rule f2)
  next
    case None
    with all have c: "calls' = calls @ ?B" by simp
    from Cons.IH [of calls'] obtain j where
      bothj: "snd (send_namespaces put g calls') = calls' @ take j (planned g)
              \<and> (fst (send_namespaces put g calls') = None \<longrightarrow>
                   snd (send_namespaces put g calls') = calls' @ planned g)" ..
    note j = bothj [THEN conjunct1] and allj = bothj [THEN conjunct2]
    have s: "send_namespaces put (a # g) calls = send_namespaces put g calls'"
      using a r None by simp
    have "snd (send_namespaces put (a # g) calls) = calls' @ take j (planned g)"
      unfolding s by (rule j)
    then have f1: "snd (send_namespaces put (a # g) calls)
              = calls @ take (length ?B + j) (planned (a # g))"
      unfolding pl c by simp
    have "fst (send_namespaces put (a # g) calls) = None \<longrightarrow>
          snd (send_namespaces put (a # g) calls) = calls' @ planned g"
      unfolding s by (rule allj)
    then have f2: "fst (send_namespaces put (a # g) calls) = None \<longrightarrow>
          snd (send_namespaces put (a # g) calls) = calls @ planned (a # g)"
      unfolding pl c by simp
    show ?thesis
      by (rule exI [of _ "length ?B + j"], rule conjI, rule f1, rule f2)
  qed
qed


lemma put_batches_refused:
  "accepted put calls \<Longrightarrow> fst (put_batches put ns ms i calls) = Some e \<Longrightarrow>
   \<exists>cs c. snd (put_batches put ns ms i calls) = cs @ [c] \<and> accepted put cs
          \<and> put cs (fst c) (snd c) = Some e"
proof (induction put ns ms i calls rule: put_batches.induct)
  case (1 put ns ms i calls)
  show ?case
  proof (cases "i < length ms")
    case False
    with "1.prems"(2) show ?thesis by (simp add: put_batches.simps [of put ns ms i calls])
  next
    case True
    let ?b = "take 20 (drop i ms)"
    show ?thesis
    proof (cases "put calls ns ?b")
      case (Some e')
      then have r: "put_batches put ns ms i calls = (Some e', calls @ [(ns, ?b)])"
        using True by (simp add: put_batches.simps [of put ns ms i calls])
      with "1.prems"(2) have "e' = e" by simp
      with r Some "1.prems"(1) show ?thesis by auto
    next
      case None
      then have r: "put_batches put ns ms i calls
                    = put_batches put ns ms (i + 20) (calls @ [(ns, ?b)])"
        using True by (simp add: put_batches.simps [of put ns ms i calls])
      have "accepted put (calls @ [(ns, ?b)])"
        using "1.prems"(1) None by (simp add: accepted_snoc)
      from "1.IH" [OF True refl None this] "1.prems"(2) show ?thesis
        unfolding r by simp
    qed
  qed
qed

lemma send_namespaces_refused:
  "accepted put calls \<Longrightarrow> fst (send_namespaces put g calls) = Some e \<Longrightarrow>
   \<exists>cs c. snd (send_namespaces put g calls) = cs @ [c] \<and> accepted put cs
          \<and> put cs (fst c) (snd c) = Some e"
proof (induction g arbitrary: calls)
  case Nil
  then show ?case by simp
next
  case (Cons a g)
  obtain ns ms where a: "a = (ns, ms)" by (cases a)
  obtain err calls' where r: "put_batches put ns ms 0 calls = (err, calls')"
    by (cases "put_batches put ns ms 0 calls")
  show ?case
  proof (cases err)
    case None
    then have s: "send_namespaces put (a # g) calls = send_namespaces put g calls'"
      using a r by simp
    have "accepted put calls'"
      using put_batches_accepted [OF Cons.prems(1), of ns ms 0] r None by simp
    from Cons.IH [OF this] Cons.prems(2) show ?thesis unfolding s by simp
  next
    case (Some e')
    then have s: "send_namespaces put (a # g) calls = (Some e', calls')"
      using a r by simp
    with Cons.prems(2) have "e' = e" by simp
    with put_batches_refused [OF Cons.prems(1), of ns ms 0 e] r Some show ?thesis
      unfolding s by simp
  qed
qed

lemma accepted_butlast: "accepted put calls \<Longrightarrow> accepted put (butlast calls)"
proof (cases calls rule: rev_cases)
  case Nil
  then show ?thesis by simp
next
  case (snoc cs c)
  assume "accepted put calls"
  with snoc show ?thesis by (simp add: accepted_snoc)
qed

lemma planned_calls_empty: "metric_buffer s = [] \<Longrightarrow> planned_calls s = []"
  by (simp add: planned_calls_def planned_def group_metrics_def)

text \<open>
  C1, as the code has it. \<^verbatim>\<open>flush_metrics\<close> never raises. The calls it makes are an
  initial segment of the batches of the buffer, and every call but the last was accepted:
  the flush stops at the first call the sink refuses. When every call was accepted, all
  batches were sent, each namespace received exactly its buffered observations, and the
  buffer is cleared (also when there was nothing to send). When a call was refused, it is
  the last call made, the batches after it are not sent, the last thing the flush does is
  to log the error of that call, and the collector is left as it was, buffer included.
\<close>

theorem flush_metrics_clears_iff_accepted:
  "raised (flush_metrics put s) = None
   \<and> state (flush_metrics put s) =
       (if accepted put (puts (flush_metrics put s)) then s\<lparr>metric_buffer := []\<rparr> else s)
   \<and> puts (flush_metrics put s) = take (length (puts (flush_metrics put s))) (planned_calls s)
   \<and> accepted put (butlast (puts (flush_metrics put s)))
   \<and> (accepted put (puts (flush_metrics put s)) \<longrightarrow>
        puts (flush_metrics put s) = planned_calls s
        \<and> (\<forall>ns. concat (map snd (filter (\<lambda>c. fst c = ns) (puts (flush_metrics put s))))
                 = filter (\<lambda>d. namespace_of d = ns) (buffered_data s)))
   \<and> (\<not> accepted put (puts (flush_metrics put s)) \<longrightarrow>
        (\<exists>e. put (butlast (puts (flush_metrics put s)))
                 (fst (last (puts (flush_metrics put s))))
                 (snd (last (puts (flush_metrics put s)))) = Some e
             \<and> effects (flush_metrics put s)
                 = map (\<lambda>(ns, b). Put ns b) (puts (flush_metrics put s))
                   @ [Log ERROR (Failed_to_flush e)]))"
proof (cases "metric_buffer s = []")
  case True
  then have "s\<lparr>metric_buffer := []\<rparr> = s" by simp
  with True show ?thesis
    by (simp add: flush_metrics_def puts_def planned_calls_empty buffered_data_def)
next
  case False
  let ?g = "group_metrics (metric_buffer s)"
  obtain err calls where r: "send_namespaces put ?g [] = (err, calls)"
    by (cases "send_namespaces put ?g []")
  have cs: "puts (flush_metrics put s) = calls"
    using False r by (simp add: puts_flush_metrics)
  have acc: "accepted put calls = (err = None)"
    using flush_metrics_accepted [OF False, of put] r cs by simp
  from send_namespaces_planned [of put ?g "[]"] obtain k where
    both: "snd (send_namespaces put ?g []) = [] @ take k (planned ?g)
           \<and> (fst (send_namespaces put ?g []) = None \<longrightarrow>
                snd (send_namespaces put ?g []) = [] @ planned ?g)" ..
  have pre: "calls = take k (planned_calls s)"
    using both [THEN conjunct1] r by (simp add: planned_calls_def)
  have seg: "calls = take (length calls) (planned_calls s)"
  proof -
    have "length calls = min k (length (planned_calls s))"
      by (subst pre) simp
    then show ?thesis by (subst pre) (simp add: min_def)
  qed
  show ?thesis
  proof (cases err)
    case None
    have all: "calls = planned_calls s"
      using both [THEN conjunct2] r None by (simp add: planned_calls_def)
    have part: "ns_data ns calls = filter (\<lambda>d. namespace_of d = ns) (buffered_data s)" for ns
      using send_namespaces_ns_data [of put ?g "[]" ns] r None
      by (simp add: ns_data_group_metrics)
    have a: "accepted put calls" using acc None by simp
    have st: "state (flush_metrics put s) = s\<lparr>metric_buffer := []\<rparr>"
      using False r None by (simp add: flush_metrics_def Let_def)
    have ra: "raised (flush_metrics put s) = None"
      using False r None by (simp add: flush_metrics_def Let_def)
    show ?thesis
      unfolding cs using a accepted_butlast [OF a] st ra seg all [symmetric] part
      by (simp add: ns_data_def)
  next
    case (Some e)
    have na: "\<not> accepted put calls" using acc Some by simp
    from send_namespaces_refused [of put "[]" ?g e] r Some obtain cs' c where
      last: "calls = cs' @ [c]" "accepted put cs'" "put cs' (fst c) (snd c) = Some e"
      by auto
    have st: "state (flush_metrics put s) = s"
      using False r Some by (simp add: flush_metrics_def Let_def)
    have ra: "raised (flush_metrics put s) = None"
      using False r Some by (simp add: flush_metrics_def Let_def)
    have ef: "effects (flush_metrics put s)
              = map (\<lambda>(ns, b). Put ns b) calls @ [Log ERROR (Failed_to_flush e)]"
      using False r Some by (simp add: flush_metrics_def Let_def)
    have bl: "butlast calls = cs'" "last calls = c" using last(1) by simp_all
    show ?thesis
      unfolding cs using na st ra seg ef last(2,3) bl by simp
  qed
qed

text \<open>
  C1 as stated fails: with one buffered observation and a sink that raises, the buffer is
  not empty after the flush.
\<close>

theorem flush_metrics_keeps_buffer_on_failure:
  "metric_buffer (state (flush_metrics (\<lambda>calls namespace batch. Some (ClientError ''Throttling''))
      (record_metric ''api_request_size'' (PyInt 512) ''Bytes'' [] 0 (init_collector ''us-east-1''))))
   \<noteq> []"
  by (simp add: flush_metrics_def record_metric_def init_collector_def group_metrics_def
      put_batches.simps Let_def)

text \<open>
  Three observations of three namespaces and a sink that refuses its second call: two
  calls are made, the third batch is never sent, and the collector is left as it was.
\<close>

theorem flush_metrics_clears_iff_accepted_witness:
  "length (puts (flush_metrics (\<lambda>calls namespace batch.
                   if length calls = 1 then Some (ClientError ''Throttling'') else None)
             (record_metric ''security_events_total'' (PyInt 1) ''Count'' [] 2
               (record_metric ''cost_per_prediction'' (PyInt 3) ''None'' [] 1
                 (record_metric ''api_request_size'' (PyInt 512) ''Bytes'' [] 0
                   (init_collector ''us-east-1'')))))) = 2
   \<and> length (planned_calls
             (record_metric ''security_events_total'' (PyInt 1) ''Count'' [] 2
               (record_metric ''cost_per_prediction'' (PyInt 3) ''None'' [] 1
                 (record_metric ''api_request_size'' (PyInt 512) ''Bytes'' [] 0
                   (init_collector ''us-east-1''))))) = 3
   \<and> state (flush_metrics (\<lambda>calls namespace batch.
                   if length calls = 1 then Some (ClientError ''Throttling'') else None)
             (record_metric ''security_events_total'' (PyInt 1) ''Count'' [] 2
               (record_metric ''cost_per_prediction'' (PyInt 3) ''None'' [] 1
                 (record_metric ''api_request_size'' (PyInt 512) ''Bytes'' [] 0
                   (init_collector ''us-east-1'')))))
     = record_metric ''security_events_total'' (PyInt 1) ''Count'' [] 2
         (record_metric ''cost_per_prediction'' (PyInt 3) ''None'' [] 1
           (record_metric ''api_request_size'' (PyInt 512) ''Bytes'' [] 0
             (init_collector ''us-east-1'')))"
proof -
  let ?put = "(\<lambda>calls namespace batch.
                 if length calls = 1 then Some (ClientError ''Throttling'') else None)
              :: (string \<times> metric_datum list) list \<Rightarrow> string \<Rightarrow> metric_datum list \<Rightarrow> pyerror option"
  let ?s = "record_metric ''security_events_total'' (PyInt 1) ''Count'' [] 2
              (record_metric ''cost_per_prediction'' (PyInt 3) ''None'' [] 1
                (record_metric ''api_request_size'' (PyInt 512) ''Bytes'' [] 0
                  (init_collector ''us-east-1'')))"
  have two: "length (puts (flush_metrics ?put ?s)) = 2"
    by (simp add: puts_flush_metrics record_metric_def init_collector_def group_metrics_def
        get_metric_namespace_def startswith_def put_batches.simps Let_def)
  have three: "length (planned_calls ?s) = 3"
    by (simp add: planned_calls_def planned_def record_metric_def init_collector_def
        group_metrics_def get_metric_namespace_def startswith_def batches_from.simps)
  from two three have "puts (flush_metrics ?put ?s) \<noteq> planned_calls ?s" by auto
  with flush_metrics_clears_iff_accepted [of ?put ?s]
  have "state (flush_metrics ?put ?s) = ?s" by metis
  with two three show ?thesis by simp
qed

text \<open>
  C4. Every batch that \<^verbatim>\<open>flush_metrics\<close> hands to the sink is not empty, holds at most 20
  observations and only observations of the namespace it is sent under. When the sink accepts
  every call, the batches sent under a namespace, one after the other, are exactly the
  buffered observations of that namespace in the order of the buffer, so the namespaces
  partition the buffer; and a buffer of 45 observations of one namespace gives exactly three
  calls, of 20, 20 and 5 observations, which together are the buffer in its order.
\<close>

theorem flush_metrics_batches:
  "(\<forall>(ns, b) \<in> set (puts (flush_metrics put s)).
       b \<noteq> [] \<and> length b \<le> 20 \<and> (\<forall>d \<in> set b. namespace_of d = ns))
   \<and> (accepted put (puts (flush_metrics put s)) \<longrightarrow>
        (\<forall>ns. concat (map snd (filter (\<lambda>c. fst c = ns) (puts (flush_metrics put s))))
              = filter (\<lambda>d. namespace_of d = ns) (buffered_data s))
        \<and> (length (buffered_data s) = 45 \<and> (\<forall>d \<in> set (buffered_data s). namespace_of d = n) \<longrightarrow>
             map fst (puts (flush_metrics put s)) = [n, n, n]
             \<and> map (\<lambda>c. length (snd c)) (puts (flush_metrics put s)) = [20, 20, 5]
             \<and> concat (map snd (puts (flush_metrics put s))) = buffered_data s))"
proof (cases "metric_buffer s = []")
  case True
  then show ?thesis by (simp add: puts_flush_metrics buffered_data_def)
next
  case False
  let ?g = "group_metrics (metric_buffer s)"
  let ?cs = "snd (send_namespaces put ?g [])"
  have cs: "puts (flush_metrics put s) = ?cs"
    using False by (simp add: puts_flush_metrics)
  have sizes: "\<forall>(ns, b) \<in> set ?cs. b \<noteq> [] \<and> length b \<le> 20 \<and> (\<forall>d \<in> set b. namespace_of d = ns)"
  proof (clarify, intro conjI ballI)
    fix ns b assume c: "(ns, b) \<in> set ?cs"
    from send_namespaces_calls [OF c] obtain ms
      where ms: "(ns, ms) \<in> set ?g" "b \<noteq> []" "length b \<le> 20" "set b \<subseteq> set ms"
      by auto
    show "b \<noteq> []" by fact
    show "length b \<le> 20" by fact
    fix d assume "d \<in> set b"
    with ms(4) have "d \<in> set ms" by auto
    with group_metrics_members [OF ms(1)] show "namespace_of d = ns" by simp
  qed
  have rest: "(\<forall>ns. ns_data ns ?cs = filter (\<lambda>d. namespace_of d = ns) (buffered_data s))
        \<and> (length (buffered_data s) = 45 \<and> (\<forall>d \<in> set (buffered_data s). namespace_of d = n) \<longrightarrow>
             map fst ?cs = [n, n, n] \<and> map (\<lambda>c. length (snd c)) ?cs = [20, 20, 5]
             \<and> concat (map snd ?cs) = buffered_data s)"
    if "accepted put ?cs"
  proof -
    have ok: "fst (send_namespaces put ?g []) = None"
      using that flush_metrics_accepted [OF False, of put] cs by simp
    have part: "ns_data ns ?cs = filter (\<lambda>d. namespace_of d = ns) (buffered_data s)" for ns
      using send_namespaces_ns_data [OF ok, of ns] by (simp add: ns_data_group_metrics)
    have ex: "map fst ?cs = [n, n, n] \<and> map (\<lambda>c. length (snd c)) ?cs = [20, 20, 5]
             \<and> concat (map snd ?cs) = buffered_data s"
      if len: "length (buffered_data s) = 45"
        and all: "\<forall>d \<in> set (buffered_data s). namespace_of d = n"
    proof -
      from len have "buffered_data s \<noteq> []" by auto
      then have g: "?g = [(n, buffered_data s)]"
        using all by (rule group_metrics_single)
      have send: "send_namespaces put ?g [] = put_batches put n (buffered_data s) 0 []"
        unfolding g by (cases "put_batches put n (buffered_data s) 0 []") (auto split: option.splits)
      with ok have "fst (put_batches put n (buffered_data s) 0 []) = None" by simp
      from put_batches_45 [OF len this] send
      have cs45: "?cs = [(n, take 20 (buffered_data s)), (n, take 20 (drop 20 (buffered_data s))),
                        (n, drop 40 (buffered_data s))]"
        by simp
      show ?thesis unfolding cs45 using len by (simp add: three_batches)
    qed
    from part ex show ?thesis by blast
  qed
  show ?thesis unfolding cs using sizes rest by (simp add: ns_data_def)
qed


theorem flush_metrics_batches_witness:
  "accepted (\<lambda>calls namespace batch. None)
     (puts (flush_metrics (\<lambda>calls namespace batch. None)
        ((init_collector ''us-east-1'')
           \<lparr>metric_buffer :=
              [(''api_request_size'',
                replicate 45 \<lparr>m_name = ''api_request_size'', m_value = PyInt 512, m_unit = ''Bytes'',
                              m_timestamp = 0, m_dimensions = []\<rparr>)]\<rparr>)))
   \<and> length (buffered_data
        ((init_collector ''us-east-1'')
           \<lparr>metric_buffer :=
              [(''api_request_size'',
                replicate 45 \<lparr>m_name = ''api_request_size'', m_value = PyInt 512, m_unit = ''Bytes'',
                              m_timestamp = 0, m_dimensions = []\<rparr>)]\<rparr>)) = 45
   \<and> map (\<lambda>c. length (snd c))
     (puts (flush_metrics (\<lambda>calls namespace batch. None)
        ((init_collector ''us-east-1'')
           \<lparr>metric_buffer :=
              [(''api_request_size'',
                replicate 45 \<lparr>m_name = ''api_request_size'', m_value = PyInt 512, m_unit = ''Bytes'',
                              m_timestamp = 0, m_dimensions = []\<rparr>)]\<rparr>)))
   = [20, 20, 5]"
proof -
  let ?put = "\<lambda>calls namespace batch. None :: pyerror option"
  let ?m = "\<lparr>m_name = ''api_request_size'', m_value = PyInt 512, m_unit = ''Bytes'',
             m_timestamp = 0, m_dimensions = []\<rparr>"
  let ?s = "(init_collector ''us-east-1'')\<lparr>metric_buffer := [(''api_request_size'', replicate 45 ?m)]\<rparr>"
  have a: "accepted ?put (puts (flush_metrics ?put ?s))"
    by (simp add: accepted_def)
  have l: "length (buffered_data ?s) = 45"
    by (simp add: buffered_data_def)
  have n: "\<forall>d \<in> set (buffered_data ?s). namespace_of d = ''FraudDetection/API''"
    by (simp add: buffered_data_def get_metric_namespace_def startswith_def)
  from flush_metrics_batches [of ?put ?s "''FraudDetection/API''"] a l n show ?thesis
    by blast
qed

section \<open>Properties of the anomaly check\<close>

lemma dict_get_dict_append:
  "dict_get (dict_append d k v) k' [] = dict_get d k' [] @ (if k' = k then [v] else [])"
  by (induction d) (auto simp: dict_get_def)

lemma buffered_record_metric:
  "buffered (record_metric n v u d t s) k =
     buffered s k @ (if k = n then [\<lparr>m_name = n, m_value = v, m_unit = u, m_timestamp = t,
                                     m_dimensions = d\<rparr>] else [])"
  by (simp add: buffered_def record_metric_def dict_get_dict_append)

lemma fle_in_interval: "(fle (Fin lo) x \<and> fle x (Fin hi)) = in_interval lo hi x"
  by (cases x) (simp_all add: in_interval_def)

lemma flt_above: "flt (Fin t) x = above t x"
  by (cases x) (simp_all add: above_def)

lemma flt_below: "flt x (Fin t) = below t x"
  by (cases x) (simp_all add: below_def)

text \<open>
  C6. The anomaly check appends to the observations buffered under
  \<^verbatim>\<open>business_anomaly_detected\<close>, in this order, a \<^verbatim>\<open>FraudRate\<close> anomaly exactly when
  the fraud rate is not within \<open>[0.05, 0.25]\<close>, of severity \<^verbatim>\<open>HIGH\<close> when the rate is
  above \<open>0.4\<close> and \<^verbatim>\<open>MEDIUM\<close> otherwise, and a \<^verbatim>\<open>LowConfidence\<close> anomaly of severity
  \<^verbatim>\<open>MEDIUM\<close> exactly when the average confidence is below \<open>0.6\<close>; the four thresholds
  are the doubles of the literals. Each rule looks at its own argument only, so both may
  fire in one call; no other metric name is touched, and the average fraud probability
  changes nothing.
\<close>

theorem check_business_anomalies_rules:
  "buffered (check_business_anomalies fraud_rate avg_fraud_prob avg_confidence timestamp s)
       ''business_anomaly_detected''
     = buffered s ''business_anomaly_detected''
       @ (if in_interval double_0_05 double_0_25 fraud_rate then []
          else [anomaly timestamp ''FraudRate''
                  (if above double_0_4 fraud_rate then ''HIGH'' else ''MEDIUM'')])
       @ (if below double_0_6 avg_confidence then [anomaly timestamp ''LowConfidence'' ''MEDIUM'']
          else [])
   \<and> (\<forall>name. name \<noteq> ''business_anomaly_detected'' \<longrightarrow>
         buffered (check_business_anomalies fraud_rate avg_fraud_prob avg_confidence timestamp s) name
           = buffered s name)
   \<and> check_business_anomalies fraud_rate other_fraud_prob avg_confidence timestamp s
       = check_business_anomalies fraud_rate avg_fraud_prob avg_confidence timestamp s"
  by (simp add: check_business_anomalies_def Let_def buffered_record_metric anomaly_def
      flip: fle_in_interval flt_above flt_below)

text \<open>
  At the thresholds themselves, a fraud rate of \<^verbatim>\<open>0.4\<close> with an average confidence of
  \<^verbatim>\<open>0.6\<close> gives one \<^verbatim>\<open>FraudRate\<close> anomaly of severity \<^verbatim>\<open>MEDIUM\<close> and nothing else;
  a rate and a confidence of one half give both anomalies, the first of severity
  \<^verbatim>\<open>HIGH\<close>.
\<close>

theorem check_business_anomalies_rules_witness:
  "buffered (check_business_anomalies (Fin double_0_4) (Fin (7 / 10)) (Fin double_0_6) 0
               (init_collector ''us-east-1'')) ''business_anomaly_detected''
     = [anomaly 0 ''FraudRate'' ''MEDIUM'']
   \<and> buffered (check_business_anomalies (Fin (1 / 2)) (Fin (7 / 10)) (Fin (1 / 2)) 0
               (init_collector ''us-east-1'')) ''business_anomaly_detected''
     = [anomaly 0 ''FraudRate'' ''HIGH'', anomaly 0 ''LowConfidence'' ''MEDIUM'']
   \<and> buffered (check_business_anomalies (Fin (1 / 2)) (Fin (7 / 10)) (Fin (1 / 2)) 0
               (init_collector ''us-east-1'')) ''fraud_probability'' = []"
proof -
  have "buffered (init_collector ''us-east-1'') name = []" for name
    by (simp add: buffered_def init_collector_def dict_get_def)
  then show ?thesis
    using check_business_anomalies_rules
      [of "Fin double_0_4" "Fin (7 / 10)" "Fin double_0_6" 0 "init_collector ''us-east-1''"]
      check_business_anomalies_rules
      [of "Fin (1 / 2)" "Fin (7 / 10)" "Fin (1 / 2)" 0 "init_collector ''us-east-1''"]
    by (simp add: in_interval_def above_def below_def double_0_05_def double_0_25_def
        double_0_4_def double_0_6_def)
qed

section \<open>Properties of the drift computation\<close>

lemma fadd_NaN_right [simp]: "fadd x NaN = NaN" by (cases x) simp_all
lemma fmul_NaN_right [simp]: "fmul x NaN = NaN" by (cases x) simp_all
lemma fdiv_NaN_right [simp]: "fdiv x NaN = NaN" by (cases x) simp_all

lemma np_histogram_density_Nil: "np_histogram_density [] = replicate 10 NaN"
  by (simp add: np_histogram_density_def cum_counts_def np_diff_def bins_def
      numeral_eq_Suc)

lemma length_np_histogram_density: "length (np_histogram_density a) = 10"
  by (simp add: np_histogram_density_def cum_counts_def np_diff_def bins_def)

lemma fsum_NaN: "NaN \<in> set xs \<Longrightarrow> fsum xs = NaN"
  by (induction xs) (auto simp: fsum_def)

text \<open>
  C7, on the code. With an empty current sample, or an empty baseline, the drift
  computation returns \<^verbatim>\<open>nan\<close>, not \<open>0.0\<close>: the density of an empty sample is
  \<open>0 / 0\<close> in every bin, numpy does not raise on it, and the handler that returns
  \<open>0.0\<close> is not entered.
\<close>

theorem calculate_distribution_drift_empty_is_NaN:
  "calculate_distribution_drift [] baseline_data = NaN
   \<and> calculate_distribution_drift current_data [] = NaN"
proof -
  let ?f = "\<lambda>c b. fmul c (flog (fdiv c b))"
  have nan10: "map (\<lambda>h. fdiv h (fsum (map (\<lambda>h. fadd h e) (replicate 10 NaN))))
                 (map (\<lambda>h. fadd h e) (replicate 10 NaN)) = replicate 10 NaN" for e
    by simp
  have l: "fsum (map2 ?f (replicate 10 NaN) bs) = NaN" if "length bs = 10" for bs
  proof -
    from that obtain b bs' where "bs = b # bs'" by (cases bs) auto
    then show ?thesis by (simp add: numeral_eq_Suc fsum_def)
  qed
  have r: "fsum (map2 ?f cs (replicate 10 NaN)) = NaN" if "length cs = 10" for cs
  proof -
    from that obtain c cs' where "cs = c # cs'" by (cases cs) auto
    then show ?thesis by (simp add: numeral_eq_Suc fsum_def)
  qed
  have "kl_divergence [] baseline_data = NaN"
    unfolding kl_divergence_def Let_def np_histogram_density_Nil nan10
    by (rule l) (simp add: length_np_histogram_density)
  moreover have "kl_divergence current_data [] = NaN"
    unfolding kl_divergence_def Let_def np_histogram_density_Nil nan10
    by (rule r) (simp add: length_np_histogram_density)
  ultimately show ?thesis
    by (simp add: calculate_distribution_drift_def drift_handler_def)
qed



lemma length_filter_mono:
  "(\<And>x. x \<in> set xs \<Longrightarrow> P x \<Longrightarrow> Q x) \<Longrightarrow> length (filter P xs) \<le> length (filter Q xs)"
  by (induction xs) auto

lemma flt_mono: "a \<le> b \<Longrightarrow> flt x (Fin a) \<Longrightarrow> flt x (Fin b)"
  by (cases x) auto

lemma flt_fle_mono: "a \<le> b \<Longrightarrow> flt x (Fin a) \<Longrightarrow> fle x (Fin b)"
  by (cases x) auto

lemma count_less_mono:
  "a \<le> b \<Longrightarrow> int (length (filter (\<lambda>x. flt x (Fin a)) xs)) \<le> int (length (filter (\<lambda>x. flt x (Fin b)) xs))"
  by (simp add: length_filter_mono flt_mono)

lemma count_less_le_mono:
  "a \<le> b \<Longrightarrow> int (length (filter (\<lambda>x. flt x (Fin a)) xs)) \<le> int (length (filter (\<lambda>x. fle x (Fin b)) xs))"
  by (simp add: length_filter_mono flt_fle_mono)

lemma counts_nonneg: "n \<in> set (np_diff (cum_counts a)) \<Longrightarrow> 0 \<le> n"
  unfolding np_diff_def cum_counts_def bins_def
  using count_less_mono [of _ _ a] count_less_le_mono [of _ _ a]
  by (auto simp: )

lemma counts_sum:
  "sum_list (np_diff (cum_counts a)) =
     int (length (filter (\<lambda>x. fle x (Fin 1)) a)) - int (length (filter (\<lambda>x. flt x (Fin 0)) a))"
  by (simp add: np_diff_def cum_counts_def bins_def)

lemma widths: "w \<in> set (np_diff bins) \<Longrightarrow> w = 1 / 10"
  by (auto simp: np_diff_def bins_def)

lemma histogram_nonneg:
  assumes "0 < sum_list (np_diff (cum_counts a))" and "h \<in> set (np_histogram_density a)"
  shows "nonneg_fin h"
proof -
  let ?n = "np_diff (cum_counts a)"
  let ?t = "real_of_int (sum_list ?n)"
  from assms(2) obtain ni w where nw: "(ni, w) \<in> set (zip ?n (np_diff bins))"
    and h: "h = fdiv (fdiv (Fin (real_of_int ni)) (Fin w)) (Fin ?t)"
    by (auto simp: np_histogram_density_def Let_def)
  from nw have "ni \<in> set ?n" and "w \<in> set (np_diff bins)"
    by (auto dest: set_zip_leftD set_zip_rightD)
  then have "0 \<le> ni" and w: "w = 1 / 10"
    by (auto dest: counts_nonneg widths)
  moreover have "0 < ?t" using assms(1) by simp
  ultimately show ?thesis
    unfolding h by (simp add: nonneg_fin_def)
qed

lemma fsum_pos_fin:
  "\<forall>x \<in> set xs. pos_fin x \<Longrightarrow> \<exists>t. fsum xs = Fin t \<and> 0 \<le> t \<and> (xs \<noteq> [] \<longrightarrow> 0 < t)"
proof (induction xs)
  case Nil
  show ?case by (simp add: fsum_def)
next
  case (Cons x xs)
  then obtain t where t: "fsum xs = Fin t" "0 \<le> t" by auto
  from Cons.prems have "pos_fin x" by simp
  then obtain r where r: "x = Fin r" "0 < r"
    by (cases x) (auto simp: pos_fin_def)
  have "fsum (x # xs) = Fin (r + t)" using t r by (simp add: fsum_def)
  with t r show ?case by simp
qed

lemma kl_self_zero:
  "\<forall>c \<in> set cs. pos_fin c \<Longrightarrow> fsum (map2 (\<lambda>c b. fmul c (flog (fdiv c b))) cs cs) = Fin 0"
proof (induction cs)
  case Nil
  show ?case by (simp add: fsum_def)
next
  case (Cons c cs)
  from Cons.prems have "pos_fin c" by simp
  then obtain r where r: "c = Fin r" "0 < r"
    by (cases c) (auto simp: pos_fin_def)
  have "fsum (map2 (\<lambda>c b. fmul c (flog (fdiv c b))) cs cs) = Fin 0"
    using Cons by simp
  then show ?case using r by (simp add: fsum_def)
qed

lemma normalised_pos:
  assumes "\<forall>h \<in> set hs. nonneg_fin h" and "0 < e"
  shows "\<forall>c \<in> set (map (\<lambda>h. fdiv h (fsum (map (\<lambda>h. fadd h (Fin e)) hs)))
                      (map (\<lambda>h. fadd h (Fin e)) hs)). pos_fin c"
proof -
  let ?sm = "map (\<lambda>h. fadd h (Fin e)) hs"
  have sm: "\<forall>x \<in> set ?sm. pos_fin x"
  proof
    fix x assume "x \<in> set ?sm"
    then obtain h where "h \<in> set hs" "x = fadd h (Fin e)" by auto
    with assms(1) have "nonneg_fin h" by blast
    then obtain r where "h = Fin r" "0 \<le> r"
      by (cases h) (auto simp: nonneg_fin_def)
    with \<open>x = fadd h (Fin e)\<close> assms(2) show "pos_fin x" by (simp add: pos_fin_def)
  qed
  from fsum_pos_fin [OF sm] obtain t where t: "fsum ?sm = Fin t" "?sm \<noteq> [] \<longrightarrow> 0 < t"
    by auto
  show ?thesis
  proof
    fix c assume "c \<in> set (map (\<lambda>h. fdiv h (fsum ?sm)) ?sm)"
    then obtain x where x: "x \<in> set ?sm" "c = fdiv x (fsum ?sm)" by auto
    then have "?sm \<noteq> []" by auto
    with t have "0 < t" by simp
    from x(1) sm have "pos_fin x" by blast
    then obtain r where "x = Fin r" "0 < r"
      by (cases x) (auto simp: pos_fin_def)
    with x(2) t(1) \<open>0 < t\<close> show "pos_fin c" by (simp add: pos_fin_def)
  qed
qed

text \<open>
  C8. The drift of a sample against itself is zero, hence within the tolerance of the
  smoothing constant, for every sample that is not empty and whose values are finite and
  strictly between 0 and 1, whatever number of bins it occupies: both histograms are the
  same list of positive numbers, every ratio is 1 and every logarithm 0.
\<close>

theorem drift_self_zero:
  assumes "X \<noteq> []" and "\<forall>x \<in> set X. in_unit_open x"
  shows "calculate_distribution_drift X X = Fin 0"
proof -
  have inside: "fle x (Fin 1) \<and> \<not> flt x (Fin 0)" if "x \<in> set X" for x
  proof -
    from that assms(2) have "in_unit_open x" by blast
    then show ?thesis by (cases x) (simp_all add: in_unit_open_def)
  qed
  have "filter (\<lambda>x. fle x (Fin 1)) X = X"
    using inside by (simp add: filter_id_conv)
  moreover have "filter (\<lambda>x. flt x (Fin 0)) X = []"
    using inside by (simp add: filter_empty_conv)
  ultimately have "sum_list (np_diff (cum_counts X)) = int (length X)"
    by (simp add: counts_sum)
  with assms(1) have "0 < sum_list (np_diff (cum_counts X))" by simp
  then have "\<forall>h \<in> set (np_histogram_density X). nonneg_fin h"
    by (auto intro: histogram_nonneg)
  then have "\<forall>c \<in> set (map (\<lambda>h. fdiv h (fsum (map (\<lambda>h. fadd h (Fin (1 / 10 ^ 10))) (np_histogram_density X))))
                      (map (\<lambda>h. fadd h (Fin (1 / 10 ^ 10))) (np_histogram_density X))). pos_fin c"
    by (rule normalised_pos) simp
  then have "kl_divergence X X = Fin 0"
    unfolding kl_divergence_def Let_def by (rule kl_self_zero)
  then show ?thesis
    by (simp add: calculate_distribution_drift_def drift_handler_def)
qed

theorem drift_self_zero_witness:
  "calculate_distribution_drift [Fin (1 / 10), Fin (9 / 10), Fin (1 / 10), Fin (9 / 10)]
     [Fin (1 / 10), Fin (9 / 10), Fin (1 / 10), Fin (9 / 10)] = Fin 0"
  using drift_self_zero [of "[Fin (1 / 10), Fin (9 / 10), Fin (1 / 10), Fin (9 / 10)]"]
  by (simp add: in_unit_open_def)

section \<open>Properties of the business aggregation and of the cost metrics\<close>

text \<open>
  C9, as the code has it. The query for recent predictions returns the empty list whatever
  the window, so \<^verbatim>\<open>collect_business_metrics\<close> never gets past the guard of line 159: for
  every period and every collector it leaves the collector as it was. When the start of the
  window is a representable date it takes the early return with its warning; when it is
  not, the date arithmetic of line 154 raises \<^verbatim>\<open>OverflowError\<close>, which leaves the method.
  Neither is an outcome of the branch that records the indicators and calls the anomaly
  check, which is therefore never reached.
\<close>

theorem collect_business_metrics_frame:
  "get_recent_predictions start_time end_time = []
   \<and> state (collect_business_metrics time_period_hours end_time timestamp anomaly_time s) = s
   \<and> collect_business_metrics time_period_hours end_time timestamp anomaly_time s
       = (if \<bar>time_period_hours div 24\<bar> \<le> 999999999
             \<and> 0 \<le> end_time - time_period_hours * 3600000000
             \<and> end_time - time_period_hours * 3600000000 \<le> max_datetime
          then \<lparr>raised = None, effects = [Log WARNING No_recent_predictions], state = s\<rparr>
          else \<lparr>raised = Some OverflowError, effects = [], state = s\<rparr>)"
  by (auto simp: collect_business_metrics_def get_recent_predictions_def timedelta_hours_def
      datetime_sub_def Let_def split: sum.splits)

theorem collect_business_metrics_frame_witness:
  "collect_business_metrics 1 63900000000000000 63900000000000001 63900000000000002
     (record_metric ''api_request_size'' (PyInt 512) ''Bytes'' [] 0 (init_collector ''us-east-1''))
   = \<lparr>raised = None, effects = [Log WARNING No_recent_predictions],
      state = record_metric ''api_request_size'' (PyInt 512) ''Bytes'' [] 0 (init_collector ''us-east-1'')\<rparr>"
  using collect_business_metrics_frame
    [where time_period_hours = 1 and end_time = 63900000000000000
       and timestamp = 63900000000000001 and anomaly_time = 63900000000000002
       and s = "record_metric ''api_request_size'' (PyInt 512) ''Bytes'' [] 0
                  (init_collector ''us-east-1'')"]
  by (simp add: max_datetime_def)

text \<open>
  C9 as stated fails: with a clock in the year 2025 a period of 17750001 hours starts
  before the year 1, and \<^verbatim>\<open>collect_business_metrics\<close> raises \<^verbatim>\<open>OverflowError\<close> instead
  of taking the early return.
\<close>

theorem collect_business_metrics_raises_OverflowError:
  "collect_business_metrics 17750001 63900000000000000 63900000000000001 63900000000000002
     (init_collector ''us-east-1'')
   = \<lparr>raised = Some OverflowError, effects = [], state = init_collector ''us-east-1''\<rparr>"
  by (simp add: collect_business_metrics_def timedelta_hours_def datetime_sub_def Let_def)

lemma load_global_os: "load_global ''os'' = Some NameError"
  by (simp add: load_global_def module_globals_def)

text \<open>
  C10. \<^verbatim>\<open>collect_cost_metrics\<close> leaves the collector, and so the metric buffer, as it
  was, and records no cost observation. When \<^verbatim>\<open>boto3.client\<close> returns a client, the
  \<^verbatim>\<open>try\<close> block raises \<^verbatim>\<open>NameError\<close> on the name \<^verbatim>\<open>os\<close> before the endpoint is
  asked, the handler logs it and the method returns; when \<^verbatim>\<open>boto3.client\<close> itself
  raises, which is before the \<^verbatim>\<open>try\<close>, that exception leaves the method.
\<close>

theorem collect_cost_metrics_records_nothing:
  "state (collect_cost_metrics boto3_client environ timestamp s) = s
   \<and> (\<forall>describe_endpoint. boto3_client ''sagemaker'' (region s) = Inr describe_endpoint \<longrightarrow>
        collect_cost_metrics boto3_client environ timestamp s
          = \<lparr>raised = None, effects = [Log ERROR (Failed_to_collect_cost NameError)], state = s\<rparr>)
   \<and> (\<forall>e. boto3_client ''sagemaker'' (region s) = Inl e \<longrightarrow>
        collect_cost_metrics boto3_client environ timestamp s
          = \<lparr>raised = Some e, effects = [], state = s\<rparr>)"
  by (simp add: collect_cost_metrics_def cost_body_def load_global_os split: sum.splits)

theorem collect_cost_metrics_records_nothing_witness:
  "collect_cost_metrics
     (\<lambda>service region_name. Inr (\<lambda>name. Inr [\<lparr>InstanceType = ''ml.m5.large'', CurrentInstanceCount = 2\<rparr>]))
     [] 5 (init_collector ''us-east-1'')
   = \<lparr>raised = None, effects = [Log ERROR (Failed_to_collect_cost NameError)],
      state = init_collector ''us-east-1''\<rparr>"
  using collect_cost_metrics_records_nothing
    [of "\<lambda>service region_name. Inr (\<lambda>name. Inr [\<lparr>InstanceType = ''ml.m5.large'', CurrentInstanceCount = 2\<rparr>])"
        "[]" 5 "init_collector ''us-east-1''"]
  by simp

end
